theory Spec2Isabelle
  imports Complex_Main "HOL-Library.Sublist" "HOL-Library.Multiset"
begin

section \<open>Shared vocabulary\<close>

text \<open>
  Timestamps (\<open>datetime\<close> values) are integers counting microseconds, the resolution of
  Python's \<open>datetime\<close>; \<open>time.time()\<close> readings and other floats are real numbers.
  Everything a worker does besides updating its state is recorded as a list of effects.
\<close>

type_synonym path = string

datatype effect =
    OpenCapture string
  | SetBufferSize
  | StartThread int
  | LogInfo
  | LogError
  | Sleep real

section \<open>camera\_manager.py\<close>

subsection \<open>queue.Queue\<close>

text \<open>
  The standard library's bounded FIFO queue, as far as the capture loop uses it:
  \<open>full()\<close> is \<open>0 < maxsize <= qsize()\<close>, and \<open>put_nowait\<close> raises \<open>queue.Full\<close>
  on a full queue and appends otherwise.
\<close>

record 'f Queue =
  maxsize :: nat
  items :: "'f list"

datatype queue_error = Full

definition full :: "'f Queue \<Rightarrow> bool" where
  "full q = (0 < maxsize q \<and> maxsize q \<le> length (items q))"

definition put_nowait :: "'f \<Rightarrow> 'f Queue \<Rightarrow> queue_error + 'f Queue" where
  "put_nowait x q = (if full q then Inl Full else Inr (q\<lparr>items := items q @ [x]\<rparr>))"

subsection \<open>CameraStream and CameraManager\<close>

text \<open>
  \<open>cv2.VideoCapture\<close> is an external handle; the model keeps what the code asks of it,
  \<open>isOpened()\<close>. The \<open>settings\<close> dictionary of a stream is never read by the
  functions modelled here and is left out. Of the manager's dictionary \<open>_threads\<close> the
  model keeps the set of its keys, the cameras that have a capture thread.
\<close>

datatype VideoCapture = VideoCapture (isOpened: bool)

record 'f CameraStream =
  camera_id :: int
  url :: string
  name :: string
  enabled :: bool
  capture :: "VideoCapture option"
  frame_queue :: "'f Queue"
  is_running :: bool
  last_frame :: "'f option"
  last_frame_time :: real
  fps :: real
  frame_count :: int

text \<open>The dataclass constructor with its defaults and \<open>__post_init__\<close>.\<close>

definition new_CameraStream :: "int \<Rightarrow> string \<Rightarrow> string \<Rightarrow> bool \<Rightarrow> 'f CameraStream" where
  "new_CameraStream cid u n en =
     \<lparr>camera_id = cid, url = u, name = n, enabled = en, capture = None,
      frame_queue = \<lparr>maxsize = 30, items = []\<rparr>, is_running = False,
      last_frame = None, last_frame_time = 0, fps = 0, frame_count = 0\<rparr>"

record 'f CameraManager =
  cameras :: "int \<rightharpoonup> 'f CameraStream"
  running :: bool
  threads :: "int set"

text \<open>
  What the capture backend answers to \<open>cv2.VideoCapture(url)\<close>: a handle that is open,
  a handle that is not, or an exception.
\<close>

datatype open_result = Opened | NotOpened | OpenRaised

text \<open>
  \<open>start_camera\<close>: returns the boolean result, the manager afterwards and the effects.
\<close>

definition start_camera ::
  "open_result \<Rightarrow> int \<Rightarrow> 'f CameraManager \<Rightarrow> bool \<times> 'f CameraManager \<times> effect list" where
  "start_camera backend cid m =
     (case cameras m cid of
        None \<Rightarrow> (False, m, [])
      | Some camera \<Rightarrow>
          if is_running camera then (True, m, [])
          else (case backend of
              OpenRaised \<Rightarrow> (False, m, [OpenCapture (url camera), LogError])
            | NotOpened \<Rightarrow>
                (False,
                 m\<lparr>cameras := (cameras m)(cid \<mapsto> camera\<lparr>capture := Some (VideoCapture False)\<rparr>)\<rparr>,
                 [OpenCapture (url camera), LogError])
            | Opened \<Rightarrow>
                (True,
                 m\<lparr>cameras := (cameras m)(cid \<mapsto>
                      camera\<lparr>capture := Some (VideoCapture True), is_running := True\<rparr>),
                   threads := insert cid (threads m)\<rparr>,
                 [OpenCapture (url camera), SetBufferSize, StartThread cid, LogInfo])))"

text \<open>
  One iteration of the \<open>while\<close> loop of \<open>_capture_thread\<close>. Its inputs are what the
  backend's \<open>read()\<close> answers and the two clock readings the iteration may take:
  \<open>t1\<close> for \<open>last_frame_time\<close> and \<open>t2\<close> inside the fps computation.
\<close>

datatype 'f read_result = ReadOk 'f | ReadFail | ReadRaised

definition publish :: "'f \<Rightarrow> 'f CameraStream \<Rightarrow> 'f CameraStream" where
  "publish frame camera =
     (if \<not> full (frame_queue camera)
      then (case put_nowait frame (frame_queue camera) of
              Inr q \<Rightarrow> camera\<lparr>frame_queue := q\<rparr>
            | Inl Full \<Rightarrow> camera)
      else camera)"

definition capture_iteration ::
  "'f read_result \<Rightarrow> real \<Rightarrow> real \<Rightarrow> 'f CameraStream \<Rightarrow> 'f CameraStream \<times> effect list" where
  "capture_iteration r t1 t2 camera =
     (case capture camera of
        None \<Rightarrow> (camera, [])
      | Some cap \<Rightarrow>
          if \<not> isOpened cap then (camera, [])
          else (case r of
              ReadRaised \<Rightarrow> (camera, [LogError, Sleep 1])
            | ReadFail \<Rightarrow> (camera, [])
            | ReadOk frame \<Rightarrow>
                (let c1 = camera\<lparr>last_frame := Some frame, last_frame_time := t1,
                                 frame_count := frame_count camera + 1\<rparr>
                 in if frame_count c1 mod 30 = 0
                    then (if t2 - last_frame_time c1 = 0
                          then (c1, [LogError, Sleep 1])
                          else (publish frame (c1\<lparr>fps := 30 / (t2 - last_frame_time c1)\<rparr>), []))
                    else (publish frame c1, []))))"

text \<open>
  The loop itself, over the finite sequence of inputs the thread meets; it runs while
  \<open>camera.is_running and self.running\<close>.
\<close>

fun capture_thread ::
  "bool \<Rightarrow> ('f read_result \<times> real \<times> real) list \<Rightarrow> 'f CameraStream \<Rightarrow> 'f CameraStream" where
  "capture_thread mgr_running [] camera = camera"
| "capture_thread mgr_running ((r, t1, t2) # ins) camera =
     (if is_running camera \<and> mgr_running
      then capture_thread mgr_running ins (fst (capture_iteration r t1 t2 camera))
      else camera)"

text \<open>\<open>get_frame\<close>: the latest frame of a camera, or \<open>None\<close>.\<close>

definition get_frame :: "int \<Rightarrow> 'f CameraManager \<Rightarrow> 'f option" where
  "get_frame cid m = (case cameras m cid of Some camera \<Rightarrow> last_frame camera | None \<Rightarrow> None)"

text \<open>
  \<open>start_camera\<close> has no caller inside the manager but \<open>add_camera\<close>; repeated
  attempts are calls made from outside, one per backend answer.
\<close>

fun start_camera_calls ::
  "open_result list \<Rightarrow> int \<Rightarrow> 'f CameraManager \<Rightarrow> bool list \<times> 'f CameraManager \<times> effect list" where
  "start_camera_calls [] cid m = ([], m, [])"
| "start_camera_calls (b # bs) cid m =
     (case start_camera b cid m of
        (ok, m1, es1) \<Rightarrow>
          (case start_camera_calls bs cid m1 of
             (oks, m2, es2) \<Rightarrow> (ok # oks, m2, es1 @ es2)))"

section \<open>detection\_engine.py\<close>

subsection \<open>detect\_motion\<close>

text \<open>
  The OpenCV calls of \<open>detect_motion\<close> are external; the model takes them as a
  record of functions with the constant arguments of the source already applied
  (colour code, kernel size, threshold values, iterations, retrieval mode).
  \<open>min_area\<close> and \<open>sensitivity\<close> are the values of \<open>config.get('motion.min_area', 500)\<close>
  and \<open>config.get('motion.sensitivity', 0.02)\<close>.
\<close>

record ('img, 'contour) cv2 =
  cvtColor :: "'img \<Rightarrow> 'img"
  absdiff :: "'img \<Rightarrow> 'img \<Rightarrow> 'img"
  GaussianBlur :: "'img \<Rightarrow> 'img"
  threshold :: "'img \<Rightarrow> 'img"
  dilate :: "'img \<Rightarrow> 'img"
  findContours :: "'img \<Rightarrow> 'contour list"
  contourArea :: "'contour \<Rightarrow> real"
  shape :: "'img \<Rightarrow> nat \<times> nat"

definition detect_motion ::
  "('img, 'contour) cv2 \<Rightarrow> real \<Rightarrow> real \<Rightarrow> 'img option \<Rightarrow> 'img option \<Rightarrow> bool \<times> real" where
  "detect_motion cv min_area sensitivity frame1 frame2 =
     (case frame1 of
        None \<Rightarrow> (False, 0)
      | Some f1 \<Rightarrow>
          (case frame2 of
             None \<Rightarrow> (False, 0)
           | Some f2 \<Rightarrow>
               (let gray1 = cvtColor cv f1;
                    gray2 = cvtColor cv f2;
                    diff = absdiff cv gray1 gray2;
                    blur = GaussianBlur cv diff;
                    thresh = threshold cv blur;
                    dilated = dilate cv thresh;
                    contours = findContours cv dilated;
                    motion_area =
                      sum_list (map (contourArea cv)
                        (filter (\<lambda>contour. contourArea cv contour > min_area) contours));
                    total_area = real (fst (shape cv f1) * snd (shape cv f1));
                    motion_score = (if total_area > 0 then motion_area / total_area else 0);
                    motion_detected = (motion_score > sensitivity)
                in (motion_detected, motion_score))))"

subsection \<open>The detection thread\<close>

text \<open>
  A box of the inference backend's result, with the three values the loop reads from it,
  and the dictionary the loop builds for a detection that passes the filter.
\<close>

record Box =
  xyxy :: "real \<times> real \<times> real \<times> real"
  conf :: real
  cls :: int

record Detection =
  label :: string
  confidence :: real
  bbox :: "real list"
  area :: real

text \<open>
  The rows of the \<open>events\<close> table, with the columns \<open>_save_detection_event\<close> sets.
  \<open>recording_id\<close> and \<open>thumbnail_path\<close> stay NULL; \<open>id\<close> and \<open>created_at\<close> are filled
  in by the database. \<open>data\<close> holds the detection whose \<open>str()\<close> the code stores.
\<close>

record Event =
  camera_id :: int
  recording_id :: "int option"
  event_type :: string
  label :: string
  confidence :: real
  start_time :: int
  end_time :: int
  data :: Detection

text \<open>
  The loaded model: calling it on a frame gives a list of results, each with an optional
  list of boxes; \<open>names\<close> maps a class index to its label.
\<close>

record 'f YOLO =
  predict :: "'f \<Rightarrow> real \<Rightarrow> string list \<Rightarrow> Box list option list"
  names :: "int \<rightharpoonup> string"

record 'f DetectionEngine =
  model :: "'f YOLO option"
  detection_classes :: "string list"
  detection_confidence :: real
  camera_manager :: "'f CameraManager option"

text \<open>
  The two nested \<open>for\<close> loops over results and boxes. \<open>None\<close> is the \<open>KeyError\<close> of
  \<open>self.model.names[cls]\<close>, which leaves the iteration through its \<open>except\<close>.
\<close>

fun process_boxes :: "(int \<rightharpoonup> string) \<Rightarrow> string list \<Rightarrow> real \<Rightarrow> Box list \<Rightarrow> Detection list option" where
  "process_boxes nm classes thr [] = Some []"
| "process_boxes nm classes thr (box # boxes) =
     (case xyxy box of
        (x1, y1, x2, y2) \<Rightarrow>
          (case nm (cls box) of
             None \<Rightarrow> None
           | Some l \<Rightarrow>
               (case process_boxes nm classes thr boxes of
                  None \<Rightarrow> None
                | Some ds \<Rightarrow>
                    Some (if l \<in> set classes \<and> conf box \<ge> thr
                          then \<lparr>Detection.label = l, Detection.confidence = conf box,
                                bbox = [x1, y1, x2, y2], area = (x2 - x1) * (y2 - y1)\<rparr> # ds
                          else ds))))"

fun process_results ::
  "(int \<rightharpoonup> string) \<Rightarrow> string list \<Rightarrow> real \<Rightarrow> Box list option list \<Rightarrow> Detection list option" where
  "process_results nm classes thr [] = Some []"
| "process_results nm classes thr (r # results) =
     (case (case r of None \<Rightarrow> Some [] | Some boxes \<Rightarrow> process_boxes nm classes thr boxes) of
        None \<Rightarrow> None
      | Some ds \<Rightarrow>
          (case process_results nm classes thr results of
             None \<Rightarrow> None
           | Some ds' \<Rightarrow> Some (ds @ ds')))"

text \<open>
  \<open>_save_detection_event\<close>: one row per detection. \<open>utcnow k\<close> is the \<open>k\<close>-th reading of
  \<open>datetime.utcnow()\<close> during the call; each row takes two.
\<close>

fun detection_events :: "int \<Rightarrow> (nat \<Rightarrow> int) \<Rightarrow> nat \<Rightarrow> Detection list \<Rightarrow> Event list" where
  "detection_events cid utcnow k [] = []"
| "detection_events cid utcnow k (detection # detections) =
     \<lparr>camera_id = cid, recording_id = None, event_type = ''object_detection'',
      label = Detection.label detection, confidence = Detection.confidence detection,
      start_time = utcnow k, end_time = utcnow (k + 1), data = detection\<rparr>
     # detection_events cid utcnow (k + 2) detections"

definition save_detection_event ::
  "int \<Rightarrow> (nat \<Rightarrow> int) \<Rightarrow> Detection list \<Rightarrow> Event list \<Rightarrow> Event list \<times> effect list" where
  "save_detection_event cid utcnow detections db =
     (db @ detection_events cid utcnow 0 detections, [LogInfo])"

text \<open>One iteration of the \<open>while self.running\<close> loop of \<open>_detection_thread\<close>.\<close>

definition detection_iteration ::
  "'f DetectionEngine \<Rightarrow> int \<Rightarrow> (nat \<Rightarrow> int) \<Rightarrow> Event list \<Rightarrow> Event list \<times> effect list" where
  "detection_iteration eng cid utcnow db =
     (case camera_manager eng of
        None \<Rightarrow> (db, [Sleep 1])
      | Some mgr \<Rightarrow>
          (case get_frame cid mgr of
             None \<Rightarrow> (db, [Sleep (1 / 10)])
           | Some frame \<Rightarrow>
               (case model eng of
                  None \<Rightarrow> (db, [LogError, Sleep 1])
                | Some yolo \<Rightarrow>
                    (case process_results (names yolo) (detection_classes eng)
                            (detection_confidence eng)
                            (predict yolo frame (detection_confidence eng) (detection_classes eng)) of
                       None \<Rightarrow> (db, [LogError, Sleep 1])
                     | Some detections \<Rightarrow>
                         if detections \<noteq> []
                         then (case save_detection_event cid utcnow detections db of
                                 (db', es) \<Rightarrow> (db', es @ [Sleep (1 / 10)]))
                         else (db, [Sleep (1 / 10)])))))"

text \<open>
  The loop over the passes the thread makes: each pass sees the engine as it is then
  (its camera manager's latest frame) and its own clock readings.
\<close>

fun detection_thread ::
  "int \<Rightarrow> ('f DetectionEngine \<times> (nat \<Rightarrow> int)) list \<Rightarrow> Event list \<Rightarrow> Event list" where
  "detection_thread cid [] db = db"
| "detection_thread cid ((eng, utcnow) # passes) db =
     detection_thread cid passes (fst (detection_iteration eng cid utcnow db))"

section \<open>recording\_manager.py\<close>

text \<open>
  The values the manager reads from its configuration (\<open>storage_path\<close>,
  \<open>retention_days\<close>, \<open>max_storage_gb\<close>) are parameters of the functions below, and the
  database session is the list of rows of the \<open>recordings\<close> table.
\<close>

subsection \<open>The file system and the catalog\<close>

text \<open>
  The file system as the retention code sees it: the regular files by path, each with its
  size in bytes (\<open>stat().st_size\<close>) and whether \<open>unlink()\<close> succeeds on it; on a file
  that is not \<open>removable\<close> \<open>unlink()\<close> raises an \<open>OSError\<close> other than "not found"
  (a permission error, for instance). A path names at most one file.
\<close>

record File =
  st_size :: int
  removable :: bool

type_synonym filesystem = "(path \<times> File) list"

datatype os_error = FileNotFoundError | PermissionError

definition exists_file :: "filesystem \<Rightarrow> path \<Rightarrow> bool" where
  "exists_file fs p = (map_of fs p \<noteq> None)"

definition unlink :: "path \<Rightarrow> filesystem \<Rightarrow> os_error + filesystem" where
  "unlink p fs =
     (case map_of fs p of
        None \<Rightarrow> Inl FileNotFoundError
      | Some f \<Rightarrow> if removable f then Inr (filter (\<lambda>e. fst e \<noteq> p) fs) else Inl PermissionError)"

text \<open>\<open>storage_path.rglob('*')\<close> with \<open>is_file()\<close>: the files below the storage root.\<close>

definition is_under :: "path \<Rightarrow> path \<Rightarrow> bool" where
  "is_under dir p = prefix (dir @ ''/'') p"

definition rglob :: "path \<Rightarrow> filesystem \<Rightarrow> filesystem" where
  "rglob dir fs = filter (\<lambda>e. is_under dir (fst e)) fs"

text \<open>The rows of the \<open>recordings\<close> table; \<open>rec_id\<close> is the primary key \<open>id\<close>.\<close>

record Recording =
  rec_id :: int
  camera_id :: int
  start_time :: int
  end_time :: int
  file_path :: path
  file_size :: int
  duration :: real
  event_based :: bool
  motion_score :: real
  created_at :: int

text \<open>
  How a pass over the catalog ends: it reaches \<open>db.commit()\<close>, or an exception leaves
  it and the session is closed without a commit, so that no row is deleted.
\<close>

datatype pass_exit = Committed | Raised

subsection \<open>Age eviction\<close>

text \<open>The \<open>for\<close> loop of \<open>_cleanup_old_recordings\<close> over the rows the query selected.\<close>

fun cleanup_loop :: "Recording list \<Rightarrow> filesystem \<Rightarrow> pass_exit \<times> filesystem" where
  "cleanup_loop [] fs = (Committed, fs)"
| "cleanup_loop (recording # rest) fs =
     (if exists_file fs (file_path recording)
      then (case unlink (file_path recording) fs of
              Inl e \<Rightarrow> (Raised, fs)
            | Inr fs' \<Rightarrow> cleanup_loop rest fs')
      else cleanup_loop rest fs)"

text \<open>
  \<open>_cleanup_old_recordings\<close>: \<open>now\<close> is the reading of \<open>datetime.now()\<close>,
  \<open>retention_days\<close> the configured number of days, and \<open>cutoff_date\<close> is
  \<open>now - timedelta(days=retention_days)\<close>. The query has no \<open>ORDER BY\<close>; the model
  takes the rows in table order.
\<close>

definition cutoff_date :: "int \<Rightarrow> int \<Rightarrow> int" where
  "cutoff_date now retention_days = now - retention_days * 86400000000"

definition cleanup_old_recordings ::
  "int \<Rightarrow> int \<Rightarrow> filesystem \<times> Recording list \<Rightarrow> pass_exit \<times> filesystem \<times> Recording list" where
  "cleanup_old_recordings now retention_days st =
     (case st of
        (fs, db) \<Rightarrow>
          (let old_recordings = filter (\<lambda>r. created_at r < cutoff_date now retention_days) db
           in case cleanup_loop old_recordings fs of
                (Committed, fs') \<Rightarrow> (Committed, fs', filter (\<lambda>r. r \<notin> set old_recordings) db)
              | (Raised, fs') \<Rightarrow> (Raised, fs', db)))"

subsection \<open>Capacity eviction\<close>

definition total_size_of :: "filesystem \<Rightarrow> int" where
  "total_size_of fs = sum_list (map (\<lambda>e. st_size (snd e)) fs)"

text \<open>
  The \<open>for\<close> loop of \<open>_enforce_storage_limit\<close> with its running \<open>total_size\<close>; the
  result carries the running total, the file system and the rows handed to \<open>db.delete\<close>.
\<close>

fun limit_loop ::
  "real \<Rightarrow> Recording list \<Rightarrow> int \<Rightarrow> filesystem \<Rightarrow> pass_exit \<times> int \<times> filesystem \<times> Recording list" where
  "limit_loop max_size_bytes [] total_size fs = (Committed, total_size, fs, [])"
| "limit_loop max_size_bytes (recording # rest) total_size fs =
     (if real_of_int total_size \<le> max_size_bytes then (Committed, total_size, fs, [])
      else (case map_of fs (file_path recording) of
              None \<Rightarrow>
                (case limit_loop max_size_bytes rest total_size fs of
                   (ex, t, fs', removed) \<Rightarrow> (ex, t, fs', recording # removed))
            | Some f \<Rightarrow>
                (case unlink (file_path recording) fs of
                   Inl e \<Rightarrow> (Raised, total_size, fs, [])
                 | Inr fs1 \<Rightarrow>
                     (case limit_loop max_size_bytes rest (total_size - st_size f) fs1 of
                        (ex, t, fs', removed) \<Rightarrow> (ex, t, fs', recording # removed)))))"

text \<open>
  \<open>_enforce_storage_limit\<close>: \<open>max_size_gb\<close> is the configured maximum and
  \<open>storage_path\<close> the storage root. Rows are taken in ascending \<open>created_at\<close> order
  (rows created at the same instant keep their table order).
\<close>

definition order_by_created_at_asc :: "Recording list \<Rightarrow> Recording list" where
  "order_by_created_at_asc rs = sort_key created_at rs"

definition enforce_storage_limit ::
  "real \<Rightarrow> path \<Rightarrow> filesystem \<times> Recording list \<Rightarrow> pass_exit \<times> filesystem \<times> Recording list" where
  "enforce_storage_limit max_size_gb storage_path st =
     (case st of
        (fs, db) \<Rightarrow>
          (let max_size_bytes = max_size_gb * 1024 * 1024 * 1024;
               total_size = total_size_of (rglob storage_path fs)
           in if real_of_int total_size \<le> max_size_bytes then (Committed, fs, db)
              else (case limit_loop max_size_bytes (order_by_created_at_asc db) total_size fs of
                      (Committed, t, fs', removed) \<Rightarrow>
                        (Committed, fs', filter (\<lambda>r. r \<notin> set removed) db)
                    | (Raised, t, fs', removed) \<Rightarrow> (Raised, fs', db))))"

subsection \<open>Vocabulary for the eviction passes\<close>

text \<open>
  A recording is \<open>deletable\<close> in a file system when the loops get past it: its file is
  absent, so that \<open>unlink()\<close> is not called, or \<open>unlink()\<close> succeeds on it.
  \<open>unlinked rs fs\<close> is the file system without the files of the recordings \<open>rs\<close>, and
  \<open>freed_bytes rs fs\<close> is the number of bytes those files take in \<open>fs\<close>.
\<close>

definition deletable :: "filesystem \<Rightarrow> Recording \<Rightarrow> bool" where
  "deletable fs r = (case map_of fs (file_path r) of None \<Rightarrow> True | Some f \<Rightarrow> removable f)"

definition unlinked :: "Recording list \<Rightarrow> filesystem \<Rightarrow> filesystem" where
  "unlinked rs fs = filter (\<lambda>e. fst e \<notin> file_path ` set rs) fs"

definition freed_bytes :: "Recording list \<Rightarrow> filesystem \<Rightarrow> int" where
  "freed_bytes rs fs = total_size_of (filter (\<lambda>e. fst e \<in> file_path ` set rs) fs)"

subsection \<open>Listing recordings\<close>

text \<open>
  The dictionaries \<open>get_recordings\<close> returns, as association lists in the order of the
  source's keys. \<open>PyIsoformat t\<close> stands for the string \<open>isoformat()\<close> makes of the
  timestamp \<open>t\<close>.
\<close>

datatype py_value = PyInt int | PyFloat real | PyBool bool | PyStr string | PyIsoformat int

definition recording_dict :: "Recording \<Rightarrow> (string \<times> py_value) list" where
  "recording_dict r =
     [(''id'', PyInt (rec_id r)),
      (''camera_id'', PyInt (camera_id r)),
      (''start_time'', PyIsoformat (start_time r)),
      (''end_time'', PyIsoformat (end_time r)),
      (''file_path'', PyStr (file_path r)),
      (''file_size'', PyInt (file_size r)),
      (''duration'', PyFloat (duration r)),
      (''event_based'', PyBool (event_based r))]"

text \<open>Python's truth value of the \<open>camera_id\<close> argument: \<open>None\<close> and \<open>0\<close> are false.\<close>

definition truthy :: "int option \<Rightarrow> bool" where
  "truthy v = (case v of None \<Rightarrow> False | Some n \<Rightarrow> n \<noteq> 0)"

definition order_by_created_at_desc :: "Recording list \<Rightarrow> Recording list" where
  "order_by_created_at_desc rs = sort_key (\<lambda>r. - created_at r) rs"

text \<open>
  \<open>.limit(limit)\<close> hands the integer to the database engine unchecked, as the
  \<open>LIMIT\<close> of the statement. For a number that is not negative every engine returns
  that many rows at most. For a negative number the engines differ: SQLite reads it as
  no limit and returns every row, PostgreSQL rejects the statement, and the exception
  leaves \<open>get_recordings\<close> through its \<open>finally\<close>.
\<close>

datatype dialect = Sqlite | Postgresql

datatype db_error = DataError

definition sql_limit :: "dialect \<Rightarrow> int \<Rightarrow> 'a list \<Rightarrow> db_error + 'a list" where
  "sql_limit d n rows =
     (if 0 \<le> n then Inr (take (nat n) rows)
      else (case d of Sqlite \<Rightarrow> Inr rows | Postgresql \<Rightarrow> Inl DataError))"

definition get_recordings_rows ::
  "dialect \<Rightarrow> int option \<Rightarrow> int \<Rightarrow> Recording list \<Rightarrow> db_error + Recording list" where
  "get_recordings_rows d cam limit db =
     (let query = (if truthy cam then filter (\<lambda>r. Some (camera_id r) = cam) db else db)
      in sql_limit d limit (order_by_created_at_desc query))"

definition get_recordings ::
  "dialect \<Rightarrow> int option \<Rightarrow> int \<Rightarrow> Recording list \<Rightarrow> db_error + (string \<times> py_value) list list" where
  "get_recordings d cam limit db =
     (case get_recordings_rows d cam limit db of
        Inl e \<Rightarrow> Inl e
      | Inr recordings \<Rightarrow> Inr (map recording_dict recordings))"

subsection \<open>Closing a segment\<close>

text \<open>
  One iteration of the \<open>while self.running\<close> loop of \<open>_recording_thread\<close>. The camera
  manager is given as in the detection engine; \<open>cam_str\<close>, \<open>date_str\<close> and \<open>timestamp\<close>
  are the strings \<open>str(camera_id)\<close> and \<open>strftime\<close> produce; \<open>start\<close> and \<open>stop\<close> are the
  readings of \<open>datetime.now()\<close> before and after \<open>_record_video\<close>, \<open>fs\<close> is the file
  system when \<open>_record_video\<close> has returned, and \<open>new_id\<close> and \<open>utcnow\<close> are the primary
  key and the \<open>created_at\<close> default the database gives the row.
\<close>

definition get_camera_info :: "int \<Rightarrow> 'f CameraManager \<Rightarrow> bool option" where
  "get_camera_info cid m = map_option is_running (cameras m cid)"

definition recording_iteration ::
  "'f CameraManager option \<Rightarrow> path \<Rightarrow> int \<Rightarrow> bool \<Rightarrow> string \<Rightarrow> string \<Rightarrow> string \<Rightarrow>
   int \<Rightarrow> int \<Rightarrow> filesystem \<Rightarrow> int \<Rightarrow> int \<Rightarrow> Recording list \<Rightarrow> Recording list \<times> effect list" where
  "recording_iteration mgr storage_path cid ev_based cam_str date_str timestamp
       start stop fs new_id utcnow db =
     (case mgr of
        None \<Rightarrow> (db, [Sleep 1])
      | Some m \<Rightarrow>
          (case get_camera_info cid m of
             None \<Rightarrow> (db, [Sleep 1])
           | Some running_now \<Rightarrow>
               if \<not> running_now then (db, [Sleep 1])
               else
                 (let filepath = storage_path @ ''/'' @ cam_str @ ''/'' @ date_str @ ''/''
                                   @ cam_str @ ''_'' @ timestamp @ ''.mp4'';
                      recording =
                        \<lparr>rec_id = new_id, camera_id = cid, start_time = start, end_time = stop,
                         file_path = filepath,
                         file_size = (case map_of fs filepath of Some f \<Rightarrow> st_size f | None \<Rightarrow> 0),
                         duration = real_of_int (stop - start) / 1000000,
                         event_based = ev_based, motion_score = 0, created_at = utcnow\<rparr>
                  in (db @ [recording], [LogInfo]))))"

section \<open>Scenarios\<close>

text \<open>
  Concrete states and inputs used below. Frames are numbered; frame \<open>i\<close> of \<open>arrivals\<close>
  is read at second \<open>i\<close>, and the clock is read again one millisecond later.
\<close>

definition door_camera :: "nat CameraStream" where
  "door_camera = new_CameraStream 1 ''rtsp://door'' ''door'' True"

definition door_manager :: "nat CameraManager" where
  "door_manager = \<lparr>cameras = [1 \<mapsto> door_camera], running = True, threads = {}\<rparr>"

definition live_camera :: "nat CameraStream" where
  "live_camera = door_camera\<lparr>capture := Some (VideoCapture True), is_running := True\<rparr>"

definition full_camera :: "nat CameraStream" where
  "full_camera = live_camera\<lparr>frame_queue := \<lparr>maxsize = 30, items = [0..<30]\<rparr>\<rparr>"

definition arrivals :: "nat \<Rightarrow> (nat read_result \<times> real \<times> real) list" where
  "arrivals n = map (\<lambda>i. (ReadOk i, real i, real i + 1 / 1000)) [0..<n]"

text \<open>
  A detection engine watching the door camera: the model reports one person with
  confidence 0.9 on every frame, the allowed labels are \<open>person\<close> and the threshold is
  0.5. \<open>at_second t\<close> is a clock that reads second \<open>t\<close> during a whole pass.
\<close>

definition person_box :: Box where
  "person_box = \<lparr>xyxy = (10, 10, 50, 90), conf = 9 / 10, cls = 0\<rparr>"

definition person_detection :: Detection where
  "person_detection =
     \<lparr>Detection.label = ''person'', Detection.confidence = 9 / 10,
      bbox = [10, 10, 50, 90], area = 3200\<rparr>"

definition person_model :: "nat YOLO" where
  "person_model =
     \<lparr>predict = (\<lambda>frame c classes. [Some [person_box]]), names = [0 \<mapsto> ''person'']\<rparr>"

definition watching_manager :: "nat CameraManager" where
  "watching_manager = door_manager\<lparr>cameras := [1 \<mapsto> live_camera\<lparr>last_frame := Some 0\<rparr>]\<rparr>"

definition watching_engine :: "nat DetectionEngine" where
  "watching_engine =
     \<lparr>model = Some person_model, detection_classes = [''person''],
      detection_confidence = 1 / 2, camera_manager = Some watching_manager\<rparr>"

definition at_second :: "int \<Rightarrow> nat \<Rightarrow> int" where
  "at_second t k = t * 1000000"

text \<open>
  Recordings and files for the retention passes: \<open>day n\<close> is the timestamp \<open>n\<close> days after
  the epoch, \<open>recording_at\<close> a one-hour continuous recording of camera 1 registered at the
  given time, \<open>plain_file\<close> a file that can be deleted and \<open>locked_file\<close> one on which
  \<open>unlink()\<close> raises.
\<close>

definition day :: "int \<Rightarrow> int" where
  "day n = n * 86400000000"

definition MB :: int where
  "MB = 1024 * 1024"

definition recording_at :: "int \<Rightarrow> path \<Rightarrow> int \<Rightarrow> int \<Rightarrow> Recording" where
  "recording_at i p n t =
     \<lparr>rec_id = i, camera_id = 1, start_time = t - 3600000000, end_time = t, file_path = p,
      file_size = n, duration = 3600, event_based = False, motion_score = 0, created_at = t\<rparr>"

definition plain_file :: "int \<Rightarrow> File" where
  "plain_file n = \<lparr>st_size = n, removable = True\<rparr>"

definition locked_file :: "int \<Rightarrow> File" where
  "locked_file n = \<lparr>st_size = n, removable = False\<rparr>"

text \<open>Recordings registered at day 0, day 6 and day 8.\<close>

definition week_db :: "Recording list" where
  "week_db = [recording_at 1 ''s/a'' 100 (day 0), recording_at 2 ''s/b'' 100 (day 6),
              recording_at 3 ''s/c'' 100 (day 8)]"

definition week_fs :: filesystem where
  "week_fs = [(''s/a'', plain_file 100), (''s/b'', plain_file 100), (''s/c'', plain_file 100)]"

text \<open>The same files, with the file of the day-0 recording locked.\<close>

definition week_locked_fs :: filesystem where
  "week_locked_fs =
     [(''s/a'', locked_file 100), (''s/b'', plain_file 100), (''s/c'', plain_file 100)]"

text \<open>Recordings A, B and C of 40 MB each, in creation order, under the storage root \<open>s\<close>.\<close>

definition abc_db :: "Recording list" where
  "abc_db = [recording_at 1 ''s/a'' (40 * MB) (day 0), recording_at 2 ''s/b'' (40 * MB) (day 1),
             recording_at 3 ''s/c'' (40 * MB) (day 2)]"

definition abc_fs :: filesystem where
  "abc_fs = [(''s/a'', plain_file (40 * MB)), (''s/b'', plain_file (40 * MB)),
             (''s/c'', plain_file (40 * MB))]"

text \<open>
  Three recordings of day 0, day 1 and day 2; in \<open>locked_fs\<close> the file of the second
  cannot be deleted, in \<open>gone_fs\<close> the file of the first is already absent.
\<close>

definition old_db :: "Recording list" where
  "old_db = [recording_at 1 ''s/a'' 100 (day 0), recording_at 2 ''s/b'' 100 (day 1),
             recording_at 3 ''s/c'' 100 (day 2)]"

definition locked_fs :: filesystem where
  "locked_fs = [(''s/a'', plain_file 100), (''s/b'', locked_file 100), (''s/c'', plain_file 100)]"

definition gone_fs :: filesystem where
  "gone_fs = [(''s/b'', plain_file 100), (''s/c'', plain_file 100)]"

text \<open>
  A file system after \<open>_record_video\<close> has written a segment of 5 MB for camera 1 under
  the storage root \<open>s\<close>.
\<close>

definition segment_fs :: filesystem where
  "segment_fs = [(''s/1/2024-11-03/1_01-30-00.mp4'', plain_file (5 * MB))]"

text \<open>Recordings of cameras 1 and 2, for the listing.\<close>

definition two_camera_db :: "Recording list" where
  "two_camera_db = [recording_at 1 ''s/a'' 100 (day 0),
                    (recording_at 2 ''s/b'' 100 (day 1))\<lparr>camera_id := 2\<rparr>,
                    recording_at 3 ''s/c'' 100 (day 2)]"

section \<open>Properties of the capture loop\<close>

lemma publish_eq:
  "publish x c =
     (if full (frame_queue c) then c
      else c\<lparr>frame_queue := (frame_queue c)\<lparr>items := items (frame_queue c) @ [x]\<rparr>\<rparr>)"
  by (simp add: publish_def put_nowait_def)

lemma publish_bounded:
  assumes "maxsize (frame_queue c) = 30" and "length (items (frame_queue c)) \<le> 30"
  shows "maxsize (frame_queue (publish x c)) = 30 \<and>
         length (items (frame_queue (publish x c))) \<le> 30"
  using assms by (auto simp add: publish_eq full_def)

lemma capture_iteration_bounded:
  assumes "maxsize (frame_queue c) = 30" and "length (items (frame_queue c)) \<le> 30"
  shows "maxsize (frame_queue (fst (capture_iteration r t1 t2 c))) = 30 \<and>
         length (items (frame_queue (fst (capture_iteration r t1 t2 c)))) \<le> 30"
proof (cases r)
  case (ReadOk x)
  let ?c1 = "c\<lparr>last_frame := Some x, last_frame_time := t1, frame_count := frame_count c + 1\<rparr>"
  have a: "maxsize (frame_queue (publish x (?c1\<lparr>fps := v\<rparr>))) = 30 \<and>
           length (items (frame_queue (publish x (?c1\<lparr>fps := v\<rparr>)))) \<le> 30" for v
    by (rule publish_bounded) (simp_all add: assms)
  have b: "maxsize (frame_queue (publish x ?c1)) = 30 \<and>
           length (items (frame_queue (publish x ?c1))) \<le> 30"
    by (rule publish_bounded) (simp_all add: assms)
  show ?thesis
    using a b assms ReadOk
    by (simp add: capture_iteration_def Let_def split: option.splits)
next
  case ReadFail
  then show ?thesis using assms by (simp add: capture_iteration_def split: option.splits)
next
  case ReadRaised
  then show ?thesis using assms by (simp add: capture_iteration_def split: option.splits)
qed

lemma capture_thread_bounded:
  "maxsize (frame_queue c) = 30 \<Longrightarrow> length (items (frame_queue c)) \<le> 30 \<Longrightarrow>
   length (items (frame_queue (capture_thread run ins c))) \<le> 30"
proof (induction ins arbitrary: c)
  case Nil
  then show ?case by simp
next
  case (Cons i ins)
  obtain r t1 t2 where i: "i = (r, t1, t2)" by (cases i) auto
  show ?case
    using Cons.prems Cons.IH [of "fst (capture_iteration r t1 t2 c)"]
      capture_iteration_bounded [of c r t1 t2]
    by (auto simp add: i)
qed

lemma capture_iteration_full:
  "full (frame_queue c) \<Longrightarrow> frame_queue (fst (capture_iteration r t1 t2 c)) = frame_queue c"
  by (simp add: capture_iteration_def publish_eq Let_def split: option.splits read_result.splits)

text \<open>
  Claim C1 says that a frame arriving at a full queue replaces the oldest queued frame.
  The loop does the opposite. A fresh camera, opened and running, reads frames
  \<open>0, \<dots>, 30\<close>: the queue then holds frames \<open>0, \<dots>, 29\<close>; the oldest frame is still
  there and the newest, frame \<open>30\<close>, is not.
\<close>

theorem drop_oldest_counterexample:
  "items (frame_queue (capture_thread True (arrivals 31) live_camera)) = [0..<30] \<and>
   30 \<notin> set (items (frame_queue (capture_thread True (arrivals 31) live_camera))) \<and>
   0 \<in> set (items (frame_queue (capture_thread True (arrivals 31) live_camera)))"
  by code_simp

text \<open>
  Claim C1, as the code has it: on a camera whose queue has capacity 30, whatever the
  capture loop reads, the queue never holds more than 30 frames; publishing never raises
  \<open>queue.Full\<close> and never waits: it appends the frame when the queue is not full and
  leaves the camera as it is when the queue is full; so an iteration that starts with a
  full queue leaves the queue unchanged and the frame it read is not enqueued
  (the newest frame is dropped, the queued ones are kept).
\<close>

theorem frame_queue_bounded_drop_newest:
  assumes "maxsize (frame_queue c) = 30" and "length (items (frame_queue c)) \<le> 30"
  shows "length (items (frame_queue (capture_thread run ins c))) \<le> 30 \<and>
         (\<not> full (frame_queue c) \<longrightarrow>
            put_nowait x (frame_queue c) =
              Inr ((frame_queue c)\<lparr>items := items (frame_queue c) @ [x]\<rparr>)) \<and>
         publish x c =
           (if full (frame_queue c) then c
            else c\<lparr>frame_queue := (frame_queue c)\<lparr>items := items (frame_queue c) @ [x]\<rparr>\<rparr>) \<and>
         (full (frame_queue c) \<longrightarrow>
            frame_queue (fst (capture_iteration r t1 t2 c)) = frame_queue c)"
  using assms capture_thread_bounded [of c run ins] publish_eq [of x c]
    capture_iteration_full [of c r t1 t2]
  by (simp add: put_nowait_def)

theorem frame_queue_bounded_drop_newest_witness:
  "maxsize (frame_queue full_camera) = 30 \<and>
   length (items (frame_queue full_camera)) \<le> 30 \<and>
   full (frame_queue full_camera) \<and>
   length (items (frame_queue (capture_thread True (arrivals 3) full_camera))) \<le> 30 \<and>
   publish 30 full_camera = full_camera \<and>
   frame_queue (fst (capture_iteration (ReadOk 30) 30 31 full_camera)) = frame_queue full_camera"
proof -
  have h1: "maxsize (frame_queue full_camera) = 30"
    by (simp add: full_camera_def)
  have h2: "length (items (frame_queue full_camera)) \<le> 30"
    by (simp add: full_camera_def)
  have h3: "full (frame_queue full_camera)"
    by (simp add: full_camera_def full_def)
  show ?thesis
    using frame_queue_bounded_drop_newest [OF h1 h2, of True "arrivals 3" 30 "ReadOk 30" 30 31] h1 h2 h3
    by simp
qed

text \<open>
  On every thirtieth frame the gauge is computed from the two clock readings of that
  iteration alone; no earlier arrival time enters it.
\<close>

lemma fps_from_one_iteration:
  assumes "capture c = Some (VideoCapture True)" and "(frame_count c + 1) mod 30 = 0"
    and "t2 \<noteq> t1"
  shows "fps (fst (capture_iteration (ReadOk x) t1 t2 c)) = 30 / (t2 - t1)"
  using assms by (simp add: capture_iteration_def Let_def publish_eq)

text \<open>
  Claim C8 at a concrete input. Thirty frames arrive one second apart, so the last thirty
  arrivals span 29 seconds and the claim's gauge is about one frame per second. The loop
  overwrites \<open>last_frame_time\<close> with the arrival time of the thirtieth frame before it
  computes the gauge, so the elapsed time it divides by is the millisecond between its two
  clock readings of that one iteration: the gauge is 30000.
\<close>

theorem fps_uses_last_arrival_only:
  "fps (capture_thread True (arrivals 30) live_camera) = 30000 \<and>
   last_frame_time (capture_thread True (arrivals 30) live_camera) = 29 \<and>
   frame_count (capture_thread True (arrivals 30) live_camera) = 30"
  by code_simp

section \<open>Properties of start\_camera\<close>

lemma start_camera_failure:
  assumes "cameras m cid = Some c" and "\<not> is_running c" and "b \<noteq> Opened"
  shows "\<exists>m' c'. start_camera b cid m = (False, m', [OpenCapture (url c), LogError]) \<and>
           cameras m' cid = Some c' \<and> \<not> is_running c' \<and> url c' = url c \<and>
           threads m' = threads m"
  using assms by (cases b) (simp_all add: start_camera_def)

lemma start_camera_calls_failures:
  assumes "cameras m cid = Some c" and "\<not> is_running c" and "Opened \<notin> set bs"
  shows "\<exists>m' c' es. start_camera_calls bs cid m = (replicate (length bs) False, m', es) \<and>
           cameras m' cid = Some c' \<and> \<not> is_running c' \<and> url c' = url c \<and>
           threads m' = threads m \<and> set es \<subseteq> {OpenCapture (url c), LogError}"
  using assms
proof (induction bs arbitrary: m c)
  case Nil
  then show ?case by simp
next
  case (Cons b bs)
  from Cons.prems have b: "b \<noteq> Opened" and bs: "Opened \<notin> set bs" by auto
  from start_camera_failure [OF Cons.prems(1,2) b]
  obtain m1 c1 where s: "start_camera b cid m = (False, m1, [OpenCapture (url c), LogError])"
    and c1: "cameras m1 cid = Some c1" "\<not> is_running c1" "url c1 = url c"
      "threads m1 = threads m"
    by blast
  from Cons.IH [OF c1(1,2) bs]
  obtain m' c' es where r: "start_camera_calls bs cid m1 = (replicate (length bs) False, m', es)"
    and c': "cameras m' cid = Some c'" "\<not> is_running c'" "url c' = url c1"
      "threads m' = threads m1" "set es \<subseteq> {OpenCapture (url c1), LogError}"
    by blast
  show ?case using s r c' c1 by auto
qed

lemma start_camera_success:
  assumes "cameras m cid = Some c" and "\<not> is_running c"
  shows "\<exists>m' c'. start_camera Opened cid m =
             (True, m', [OpenCapture (url c), SetBufferSize, StartThread cid, LogInfo]) \<and>
           cameras m' cid = Some c' \<and> is_running c' \<and>
           capture c' = Some (VideoCapture True) \<and> cid \<in> threads m'"
  using assms by (simp add: start_camera_def)

text \<open>
  Claim C6 says that a failed open schedules a retry after a backoff delay. It does not:
  when the backend's handle is not open, \<open>start_camera\<close> on the door camera returns
  \<open>False\<close>, its only effects are the open attempt and an error log line (no delay, no
  thread, no second attempt), the camera is not running and no capture thread exists.
\<close>

theorem retry_backoff_counterexample:
  "fst (start_camera NotOpened 1 door_manager) = False \<and>
   snd (snd (start_camera NotOpened 1 door_manager)) = [OpenCapture ''rtsp://door'', LogError] \<and>
   map_option is_running (cameras (fst (snd (start_camera NotOpened 1 door_manager))) 1)
     = Some False \<and>
   threads (fst (snd (start_camera NotOpened 1 door_manager))) = {}"
  by (simp add: start_camera_def door_manager_def door_camera_def new_CameraStream_def)

text \<open>
  Claim C6, as the code has it: for a registered camera that is not running, every call
  of \<open>start_camera\<close> whose open fails (a handle that is not open, or an exception)
  returns \<open>False\<close>, leaves the camera not running and the set of capture threads as it
  was, and does nothing but attempt the open and log the error; after any number of such
  calls, the first call whose open succeeds returns \<open>True\<close>, sets \<open>is_running\<close> and
  starts the capture thread.
\<close>

theorem start_camera_failures_then_success:
  assumes "cameras m cid = Some c" and "\<not> is_running c" and "Opened \<notin> set bs"
  shows "\<exists>m1 c1 es m2 c2 es2.
           start_camera_calls bs cid m = (replicate (length bs) False, m1, es) \<and>
           cameras m1 cid = Some c1 \<and> \<not> is_running c1 \<and> threads m1 = threads m \<and>
           set es \<subseteq> {OpenCapture (url c), LogError} \<and>
           start_camera Opened cid m1 = (True, m2, es2) \<and>
           cameras m2 cid = Some c2 \<and> is_running c2 \<and> cid \<in> threads m2"
proof -
  from start_camera_calls_failures [OF assms]
  obtain m1 c1 es where a: "start_camera_calls bs cid m = (replicate (length bs) False, m1, es)"
    "cameras m1 cid = Some c1" "\<not> is_running c1" "threads m1 = threads m"
    "set es \<subseteq> {OpenCapture (url c), LogError}" by blast
  from start_camera_success [OF a(2,3)]
  obtain m2 c2 es2 where b: "start_camera Opened cid m1 = (True, m2, es2)"
    "cameras m2 cid = Some c2" "is_running c2" "cid \<in> threads m2" by blast
  show ?thesis using a b by blast
qed

theorem start_camera_failures_then_success_witness:
  "\<exists>m1 c1 es m2 c2 es2.
     start_camera_calls [NotOpened, OpenRaised, NotOpened] 1 door_manager =
       (replicate (length [NotOpened, OpenRaised, NotOpened]) False, m1, es) \<and>
     cameras m1 1 = Some c1 \<and> \<not> is_running c1 \<and> threads m1 = threads door_manager \<and>
     set es \<subseteq> {OpenCapture (url door_camera), LogError} \<and>
     start_camera Opened 1 m1 = (True, m2, es2) \<and>
     cameras m2 1 = Some c2 \<and> is_running c2 \<and> 1 \<in> threads m2"
proof -
  have h1: "cameras door_manager 1 = Some door_camera"
    by (simp add: door_manager_def)
  have h2: "\<not> is_running door_camera"
    by (simp add: door_camera_def new_CameraStream_def)
  have h3: "Opened \<notin> set [NotOpened, OpenRaised, NotOpened]"
    by simp
  show ?thesis
    by (rule start_camera_failures_then_success [OF h1 h2 h3])
qed

section \<open>Properties of the detection engine\<close>

lemma detection_events_length: "length (detection_events cid utcnow k ds) = length ds"
  by (induction ds arbitrary: k) simp_all

lemma detection_events_label:
  "map Event.label (detection_events cid utcnow k ds) = map Detection.label ds"
  by (induction ds arbitrary: k) simp_all

lemma detection_iteration_append:
  "fst (detection_iteration eng cid utcnow db) = db @ fst (detection_iteration eng cid utcnow [])"
  by (simp add: detection_iteration_def save_detection_event_def split: option.splits)

lemma detection_thread_append:
  "detection_thread cid passes db = db @ detection_thread cid passes []"
proof (induction passes arbitrary: db)
  case Nil
  then show ?case by simp
next
  case (Cons p passes)
  obtain eng utcnow where p: "p = (eng, utcnow)" by (cases p) auto
  have "detection_thread cid (p # passes) db
          = detection_thread cid passes (db @ fst (detection_iteration eng cid utcnow []))"
    using detection_iteration_append [of eng cid utcnow db] by (simp add: p)
  also have "\<dots> = (db @ fst (detection_iteration eng cid utcnow [])) @ detection_thread cid passes []"
    by (rule Cons.IH)
  also have "\<dots> = db @ detection_thread cid (p # passes) []"
    using Cons.IH [of "fst (detection_iteration eng cid utcnow [])"] by (simp add: p)
  finally show ?case .
qed

text \<open>
  Claim C5 says that detections of one label at seconds 0 and 3 give one Event and a
  third detection at second 6 gives a second one. The engine has no suppression window:
  the two passes at seconds 0 and 3 store two \<open>person\<close> events for camera 1, and the
  three passes at seconds 0, 3 and 6 store three.
\<close>

theorem debounce_counterexample:
  "map Event.label
     (detection_thread 1 [(watching_engine, at_second 0), (watching_engine, at_second 3)] [])
     = [''person'', ''person''] \<and>
   map Event.camera_id
     (detection_thread 1 [(watching_engine, at_second 0), (watching_engine, at_second 3)] [])
     = [1, 1] \<and>
   map Event.start_time
     (detection_thread 1 [(watching_engine, at_second 0), (watching_engine, at_second 3)] [])
     = [0, 3000000] \<and>
   length (detection_thread 1
     [(watching_engine, at_second 0), (watching_engine, at_second 3),
      (watching_engine, at_second 6)] []) = 3"
  by (simp add: detection_iteration_def save_detection_event_def watching_engine_def
      watching_manager_def person_model_def person_box_def at_second_def get_frame_def
      door_manager_def live_camera_def)

text \<open>
  Claim C5, as the code has it: a pass of the detection thread that has a frame and a
  loaded model, and whose result loop ends without an exception, stores one Event for
  each detection that passed the label and confidence filter, with that detection's
  label, after the events that were there; what a pass and what the whole thread store
  does not depend on the events stored before, so nothing is suppressed, however
  recently an Event for the same camera and label was stored.
\<close>

theorem detection_events_not_suppressed:
  assumes "camera_manager eng = Some mgr" and "get_frame cid mgr = Some frame"
    and "model eng = Some yolo"
    and "process_results (names yolo) (detection_classes eng) (detection_confidence eng)
           (predict yolo frame (detection_confidence eng) (detection_classes eng)) = Some ds"
  shows "fst (detection_iteration eng cid utcnow db) = db @ detection_events cid utcnow 0 ds \<and>
         length (detection_events cid utcnow 0 ds) = length ds \<and>
         map Event.label (detection_events cid utcnow 0 ds) = map Detection.label ds \<and>
         detection_thread cid passes db = db @ detection_thread cid passes []"
  using assms detection_thread_append [of cid passes db]
  by (simp add: detection_iteration_def save_detection_event_def detection_events_length
      detection_events_label)

theorem detection_events_not_suppressed_witness:
  "camera_manager watching_engine = Some watching_manager \<and>
   get_frame 1 watching_manager = Some 0 \<and>
   model watching_engine = Some person_model \<and>
   process_results (names person_model) (detection_classes watching_engine)
     (detection_confidence watching_engine)
     (predict person_model 0 (detection_confidence watching_engine)
        (detection_classes watching_engine)) = Some [person_detection] \<and>
   fst (detection_iteration watching_engine 1 (at_second 3)
          (detection_events 1 (at_second 0) 0 [person_detection]))
     = detection_events 1 (at_second 0) 0 [person_detection]
       @ detection_events 1 (at_second 3) 0 [person_detection] \<and>
   map Event.label (detection_events 1 (at_second 3) 0 [person_detection]) = [''person'']"
proof -
  have h1: "camera_manager watching_engine = Some watching_manager"
    by (simp add: watching_engine_def)
  have h2: "get_frame 1 watching_manager = Some 0"
    by (simp add: get_frame_def watching_manager_def live_camera_def)
  have h3: "model watching_engine = Some person_model"
    by (simp add: watching_engine_def)
  have h4: "process_results (names person_model) (detection_classes watching_engine)
     (detection_confidence watching_engine)
     (predict person_model 0 (detection_confidence watching_engine)
        (detection_classes watching_engine)) = Some [person_detection]"
    by (simp add: watching_engine_def person_model_def person_box_def person_detection_def)
  show ?thesis
    using detection_events_not_suppressed [OF h1 h2 h3 h4, of "at_second 3"
        "detection_events 1 (at_second 0) 0 [person_detection]" "[]"] h1 h2 h3 h4
    by (simp add: person_detection_def)
qed

text \<open>
  Claim C10: when at least one of the two frames is \<open>None\<close>, \<open>detect_motion\<close> returns
  \<open>(False, 0.0)\<close>, whatever the image backend and the configured thresholds are: no
  image function takes part in the result.
\<close>

theorem detect_motion_none:
  "frame1 = None \<or> frame2 = None \<Longrightarrow>
   detect_motion cv min_area sensitivity frame1 frame2 = (False, 0)"
  by (auto simp add: detect_motion_def split: option.splits)

theorem detect_motion_none_witness:
  "(\<forall>cv :: (nat, nat) cv2. detect_motion cv 500 (1 / 50) None (Some 7) = (False, 0)) \<and>
   (\<forall>cv :: (nat, nat) cv2. detect_motion cv 500 (1 / 50) (Some 7) None = (False, 0)) \<and>
   (\<forall>cv :: (nat, nat) cv2. detect_motion cv 500 (1 / 50) None None = (False, 0))"
proof (intro conjI allI)
  fix cv :: "(nat, nat) cv2"
  show "detect_motion cv 500 (1 / 50) None (Some 7) = (False, 0)"
    by (rule detect_motion_none) simp
  show "detect_motion cv 500 (1 / 50) (Some 7) None = (False, 0)"
    by (rule detect_motion_none) simp
  show "detect_motion cv 500 (1 / 50) None None = (False, 0)"
    by (rule detect_motion_none) simp
qed

section \<open>Properties of the retention passes\<close>

subsection \<open>Files and sizes\<close>

lemma map_of_unlinked:
  "map_of (filter (\<lambda>e. fst e \<noteq> p) fs) q = (if q = p then None else map_of fs q)"
  by (induction fs) auto

lemma filter_absent:
  "map_of fs p = None \<Longrightarrow>
   filter (\<lambda>e. fst e \<noteq> p \<and> fst e \<notin> S) fs = filter (\<lambda>e. fst e \<notin> S) fs"
  by (rule filter_cong) (auto simp add: map_of_eq_None_iff)

lemma filter_unlinked:
  "filter (\<lambda>e. fst e \<notin> S) (filter (\<lambda>e. fst e \<noteq> p) fs) =
   filter (\<lambda>e. fst e \<noteq> p \<and> fst e \<notin> S) fs"
  by (induction fs) auto

lemma unlinked_Nil: "unlinked [] fs = fs"
  by (simp add: unlinked_def)

lemma freed_bytes_Nil: "freed_bytes [] fs = 0"
  by (simp add: freed_bytes_def total_size_of_def)

lemma unlinked_Cons_absent:
  "map_of fs (file_path r) = None \<Longrightarrow> unlinked (r # rs) fs = unlinked rs fs"
  by (simp add: unlinked_def filter_absent)

lemma unlinked_Cons_present:
  "unlinked (r # rs) fs = unlinked rs (filter (\<lambda>e. fst e \<noteq> file_path r) fs)"
  by (simp add: unlinked_def filter_unlinked)

lemma size_split_present:
  "distinct (map fst fs) \<Longrightarrow> map_of fs p = Some f \<Longrightarrow>
   total_size_of (filter (\<lambda>e. fst e = p \<or> fst e \<in> S) fs) =
     st_size f + total_size_of (filter (\<lambda>e. fst e \<in> S) (filter (\<lambda>e. fst e \<noteq> p) fs))"
proof (induction fs)
  case Nil
  then show ?case by simp
next
  case (Cons e fs)
  show ?case
  proof (cases "fst e = p")
    case True
    with Cons.prems have f: "snd e = f" by (cases e) simp
    from Cons.prems True have "p \<notin> fst ` set fs" by auto
    then have "filter (\<lambda>e. fst e = p \<or> fst e \<in> S) fs = filter (\<lambda>e. fst e \<in> S) fs"
      and "filter (\<lambda>e. fst e \<noteq> p) fs = fs"
      by (auto intro!: filter_cong filter_True)
    with True f show ?thesis
      by (simp add: total_size_of_def)
  next
    case False
    with Cons.prems have "map_of fs p = Some f" by (cases e) (simp split: if_splits)
    with Cons.IH Cons.prems have
      "total_size_of (filter (\<lambda>e. fst e = p \<or> fst e \<in> S) fs) =
         st_size f + total_size_of (filter (\<lambda>e. fst e \<in> S) (filter (\<lambda>e. fst e \<noteq> p) fs))"
      by simp
    with False show ?thesis
      by (simp add: total_size_of_def)
  qed
qed

lemma freed_bytes_Cons_present:
  "distinct (map fst fs) \<Longrightarrow> map_of fs (file_path r) = Some f \<Longrightarrow>
   freed_bytes (r # rs) fs = st_size f + freed_bytes rs (filter (\<lambda>e. fst e \<noteq> file_path r) fs)"
  using size_split_present [of fs "file_path r" f "file_path ` set rs"]
  by (simp add: freed_bytes_def)

lemma freed_bytes_Cons_absent:
  assumes "map_of fs (file_path r) = None"
  shows "freed_bytes (r # rs) fs = freed_bytes rs fs"
proof -
  from assms have "filter (\<lambda>e. fst e = file_path r \<or> fst e \<in> file_path ` set rs) fs
               = filter (\<lambda>e. fst e \<in> file_path ` set rs) fs"
    by (intro filter_cong) (force simp add: map_of_eq_None_iff)+
  then show ?thesis by (simp add: freed_bytes_def)
qed

lemma deletable_after_unlink:
  "map_of fs p = Some f \<Longrightarrow> removable f \<Longrightarrow>
   deletable (filter (\<lambda>e. fst e \<noteq> p) fs) x = deletable fs x"
  by (auto simp add: deletable_def map_of_unlinked split: option.splits)

text \<open>
  When the files of the recordings lie below the storage root, the storage total less the
  bytes freed is the storage total of the file system without those files.
\<close>

lemma size_partition:
  "total_size_of (filter P fs) =
     total_size_of (filter (\<lambda>e. P e \<and> Q e) fs) + total_size_of (filter (\<lambda>e. P e \<and> \<not> Q e) fs)"
  by (induction fs) (auto simp add: total_size_of_def)

lemma running_total_on_disk:
  assumes "list_all (\<lambda>r. is_under dir (file_path r)) rs"
  shows "total_size_of (rglob dir fs) - freed_bytes rs fs = total_size_of (rglob dir (unlinked rs fs))"
proof -
  have a: "filter (\<lambda>e. is_under dir (fst e) \<and> fst e \<in> file_path ` set rs) fs
             = filter (\<lambda>e. fst e \<in> file_path ` set rs) fs"
    using assms by (intro filter_cong) (auto simp add: list_all_iff)
  have b: "rglob dir (unlinked rs fs)
             = filter (\<lambda>e. is_under dir (fst e) \<and> \<not> fst e \<in> file_path ` set rs) fs"
    by (simp add: rglob_def unlinked_def conj_commute)
  have "total_size_of (rglob dir fs) =
          total_size_of (filter (\<lambda>e. is_under dir (fst e) \<and> fst e \<in> file_path ` set rs) fs)
          + total_size_of (filter (\<lambda>e. is_under dir (fst e) \<and> \<not> fst e \<in> file_path ` set rs) fs)"
    unfolding rglob_def by (rule size_partition)
  then have "total_size_of (rglob dir fs) =
               freed_bytes rs fs + total_size_of (rglob dir (unlinked rs fs))"
    by (simp only: a b freed_bytes_def)
  then show ?thesis by simp
qed

subsection \<open>The loops\<close>

lemma cleanup_loop_trace:
  "\<exists>k\<le>length rs.
     cleanup_loop rs fs = (if k = length rs then Committed else Raised, unlinked (take k rs) fs) \<and>
     list_all (deletable fs) (take k rs) \<and>
     (k < length rs \<longrightarrow> \<not> deletable fs (rs ! k))"
proof (induction rs arbitrary: fs)
  case Nil
  then show ?case by (simp add: unlinked_Nil)
next
  case (Cons r rs)
  show ?case
  proof (cases "deletable fs r")
    case False
    then obtain f where f: "map_of fs (file_path r) = Some f" "\<not> removable f"
      by (auto simp add: deletable_def split: option.splits)
    then have "cleanup_loop (r # rs) fs = (Raised, fs)"
      by (simp add: exists_file_def unlink_def)
    with False show ?thesis
      by (intro exI [of _ 0]) (simp add: unlinked_Nil)
  next
    case True
    define fs1 where "fs1 = (case map_of fs (file_path r) of None \<Rightarrow> fs
                             | Some f \<Rightarrow> filter (\<lambda>e. fst e \<noteq> file_path r) fs)"
    have step: "cleanup_loop (r # rs) fs = cleanup_loop rs fs1"
      using True
      by (simp add: fs1_def exists_file_def unlink_def deletable_def split: option.splits)
    have un: "unlinked (r # xs) fs = unlinked xs fs1" for xs
    proof (cases "map_of fs (file_path r)")
      case None
      then show ?thesis by (simp add: fs1_def unlinked_Cons_absent)
    next
      case (Some f)
      then show ?thesis by (simp add: fs1_def unlinked_Cons_present)
    qed
    have de: "deletable fs1 = deletable fs"
    proof (cases "map_of fs (file_path r)")
      case None
      then show ?thesis by (simp add: fs1_def)
    next
      case (Some f)
      with True have "removable f" by (simp add: deletable_def)
      with Some show ?thesis by (intro ext) (simp add: fs1_def deletable_after_unlink)
    qed
    from Cons.IH [of fs1]
    obtain k where k: "k \<le> length rs"
      "cleanup_loop rs fs1 = (if k = length rs then Committed else Raised, unlinked (take k rs) fs1)"
      "list_all (deletable fs1) (take k rs)"
      "k < length rs \<longrightarrow> \<not> deletable fs1 (rs ! k)"
      by blast
    have a: "cleanup_loop (r # rs) fs =
               (if Suc k = length (r # rs) then Committed else Raised,
                unlinked (take (Suc k) (r # rs)) fs)"
      using step k(2) by (simp add: un)
    have b: "list_all (deletable fs) (take (Suc k) (r # rs))"
      using k(3) True by (simp add: de)
    have c: "Suc k < length (r # rs) \<longrightarrow> \<not> deletable fs ((r # rs) ! Suc k)"
      using k(4) by (simp add: de)
    from k(1) a b c show ?thesis
      by (intro exI [of _ "Suc k"]) simp
  qed
qed

lemma limit_loop_trace:
  assumes "distinct (map fst fs)"
  shows "\<exists>k ex. k \<le> length rs \<and>
           limit_loop mx rs tot fs =
             (ex, tot - freed_bytes (take k rs) fs, unlinked (take k rs) fs, take k rs) \<and>
           list_all (deletable fs) (take k rs) \<and>
           (\<forall>j<k. real_of_int (tot - freed_bytes (take j rs) fs) > mx) \<and>
           (ex = Committed \<and> k < length rs \<longrightarrow>
              real_of_int (tot - freed_bytes (take k rs) fs) \<le> mx) \<and>
           (ex = Raised \<longrightarrow>
              k < length rs \<and> real_of_int (tot - freed_bytes (take k rs) fs) > mx \<and>
              \<not> deletable fs (rs ! k))"
  using assms
proof (induction rs arbitrary: fs tot)
  case Nil
  then show ?case by (simp add: unlinked_Nil freed_bytes_Nil)
next
  case (Cons r rs)
  show ?case
  proof (cases "real_of_int tot \<le> mx")
    case True
    then show ?thesis
      by (intro exI [of _ 0] exI [of _ Committed]) (simp add: unlinked_Nil freed_bytes_Nil)
  next
    case over: False
    show ?thesis
    proof (cases "deletable fs r")
      case False
      then obtain f where f: "map_of fs (file_path r) = Some f" "\<not> removable f"
        by (auto simp add: deletable_def split: option.splits)
      with over have "limit_loop mx (r # rs) tot fs = (Raised, tot, fs, [])"
        by (simp add: unlink_def)
      with over False show ?thesis
        by (intro exI [of _ 0] exI [of _ Raised]) (simp add: unlinked_Nil freed_bytes_Nil)
    next
      case True
      define fs1 where "fs1 = (case map_of fs (file_path r) of None \<Rightarrow> fs
                               | Some f \<Rightarrow> filter (\<lambda>e. fst e \<noteq> file_path r) fs)"
      define tot1 where "tot1 = (case map_of fs (file_path r) of None \<Rightarrow> tot
                               | Some f \<Rightarrow> tot - st_size f)"
      have step: "limit_loop mx (r # rs) tot fs =
                    (case limit_loop mx rs tot1 fs1 of
                       (ex, t, fs', removed) \<Rightarrow> (ex, t, fs', r # removed))"
        using over True
        by (simp add: fs1_def tot1_def unlink_def deletable_def split: option.splits)
      have un: "unlinked (r # xs) fs = unlinked xs fs1" for xs
      proof (cases "map_of fs (file_path r)")
        case None
        then show ?thesis by (simp add: fs1_def unlinked_Cons_absent)
      next
        case (Some f)
        then show ?thesis by (simp add: fs1_def unlinked_Cons_present)
      qed
      have fr: "tot - freed_bytes (r # xs) fs = tot1 - freed_bytes xs fs1" for xs
      proof (cases "map_of fs (file_path r)")
        case None
        then show ?thesis by (simp add: fs1_def tot1_def freed_bytes_Cons_absent)
      next
        case (Some f)
        with Cons.prems show ?thesis
          by (simp add: fs1_def tot1_def freed_bytes_Cons_present)
      qed
      have de: "deletable fs1 = deletable fs"
      proof (cases "map_of fs (file_path r)")
        case None
        then show ?thesis by (simp add: fs1_def)
      next
        case (Some f)
        with True have "removable f" by (simp add: deletable_def)
        with Some show ?thesis by (intro ext) (simp add: fs1_def deletable_after_unlink)
      qed
      have d1: "distinct (map fst fs1)"
        using Cons.prems by (simp add: fs1_def distinct_map_filter split: option.splits)
      from Cons.IH [OF d1, of tot1]
      obtain k ex where k: "k \<le> length rs"
        "limit_loop mx rs tot1 fs1 =
           (ex, tot1 - freed_bytes (take k rs) fs1, unlinked (take k rs) fs1, take k rs)"
        "list_all (deletable fs1) (take k rs)"
        "\<forall>j<k. real_of_int (tot1 - freed_bytes (take j rs) fs1) > mx"
        "ex = Committed \<and> k < length rs \<longrightarrow>
           real_of_int (tot1 - freed_bytes (take k rs) fs1) \<le> mx"
        "ex = Raised \<longrightarrow>
           k < length rs \<and> real_of_int (tot1 - freed_bytes (take k rs) fs1) > mx \<and>
           \<not> deletable fs1 (rs ! k)"
        by blast
      have a: "limit_loop mx (r # rs) tot fs =
                 (ex, tot - freed_bytes (take (Suc k) (r # rs)) fs,
                  unlinked (take (Suc k) (r # rs)) fs, take (Suc k) (r # rs))"
        using step k(2) by (simp add: un fr)
      have b: "real_of_int (tot - freed_bytes (take j (r # rs)) fs) > mx" if "j < Suc k" for j
      proof (cases j)
        case 0
        with over show ?thesis by (simp add: freed_bytes_Nil)
      next
        case (Suc i)
        with that k(4) show ?thesis by (simp add: fr)
      qed
      have c: "ex = Committed \<and> Suc k < length (r # rs) \<longrightarrow>
               real_of_int (tot - freed_bytes (take (Suc k) (r # rs)) fs) \<le> mx"
        using k(5) by (simp add: fr)
      have d: "ex = Raised \<longrightarrow>
                 Suc k < length (r # rs) \<and>
                 real_of_int (tot - freed_bytes (take (Suc k) (r # rs)) fs) > mx \<and>
                 \<not> deletable fs ((r # rs) ! Suc k)"
        using k(6) by (simp add: de fr)
      have e: "list_all (deletable fs) (take (Suc k) (r # rs))"
        using k(3) True by (simp add: de)
      from k(1) a b c d e show ?thesis
        by (intro exI [of _ "Suc k"] exI [of _ ex]) simp
    qed
  qed
qed

lemma enforce_storage_limit_trace:
  assumes "distinct (map fst fs)"
  shows "\<exists>k ex. k \<le> length db \<and>
           enforce_storage_limit gb dir (fs, db) =
             (ex, unlinked (take k (order_by_created_at_asc db)) fs,
              if ex = Committed
              then filter (\<lambda>r. r \<notin> set (take k (order_by_created_at_asc db))) db else db) \<and>
           list_all (deletable fs) (take k (order_by_created_at_asc db)) \<and>
           (\<forall>j<k. real_of_int (total_size_of (rglob dir fs)
                      - freed_bytes (take j (order_by_created_at_asc db)) fs)
                    > gb * 1024 * 1024 * 1024) \<and>
           (ex = Committed \<and> k < length db \<longrightarrow>
              real_of_int (total_size_of (rglob dir fs)
                - freed_bytes (take k (order_by_created_at_asc db)) fs)
                \<le> gb * 1024 * 1024 * 1024) \<and>
           (ex = Raised \<longrightarrow>
              k < length db \<and>
              real_of_int (total_size_of (rglob dir fs)
                - freed_bytes (take k (order_by_created_at_asc db)) fs)
                > gb * 1024 * 1024 * 1024 \<and>
              \<not> deletable fs (order_by_created_at_asc db ! k))"
proof (cases "real_of_int (total_size_of (rglob dir fs)) \<le> gb * 1024 * 1024 * 1024")
  case True
  then have "enforce_storage_limit gb dir (fs, db) = (Committed, fs, db)"
    by (simp add: enforce_storage_limit_def)
  with True show ?thesis
    by (intro exI [of _ 0] exI [of _ Committed]) (simp add: unlinked_Nil freed_bytes_Nil)
next
  case False
  let ?s = "order_by_created_at_asc db"
  have len: "length ?s = length db"
    by (simp add: order_by_created_at_asc_def)
  from limit_loop_trace [OF assms, of ?s "gb * 1024 * 1024 * 1024" "total_size_of (rglob dir fs)"]
  obtain k ex where k: "k \<le> length ?s"
    "limit_loop (gb * 1024 * 1024 * 1024) ?s (total_size_of (rglob dir fs)) fs =
       (ex, total_size_of (rglob dir fs) - freed_bytes (take k ?s) fs,
        unlinked (take k ?s) fs, take k ?s)"
    "list_all (deletable fs) (take k ?s)"
    "\<forall>j<k. real_of_int (total_size_of (rglob dir fs) - freed_bytes (take j ?s) fs)
        > gb * 1024 * 1024 * 1024"
    "ex = Committed \<and> k < length ?s \<longrightarrow>
       real_of_int (total_size_of (rglob dir fs) - freed_bytes (take k ?s) fs)
         \<le> gb * 1024 * 1024 * 1024"
    "ex = Raised \<longrightarrow>
       k < length ?s \<and>
       real_of_int (total_size_of (rglob dir fs) - freed_bytes (take k ?s) fs)
         > gb * 1024 * 1024 * 1024 \<and>
       \<not> deletable fs (?s ! k)"
    by blast
  have "enforce_storage_limit gb dir (fs, db) =
          (ex, unlinked (take k ?s) fs,
           if ex = Committed then filter (\<lambda>r. r \<notin> set (take k ?s)) db else db)"
    using False k(2) by (cases ex) (simp_all add: enforce_storage_limit_def)
  with k(1,3,4,5,6) len show ?thesis
    by (intro exI [of _ k] exI [of _ ex]) simp
qed

subsection \<open>Capacity eviction\<close>

text \<open>
  Claim C2. The pass takes the whole catalog in ascending creation order, and its total
  at the start is the number of bytes of the files below the storage root. For every
  catalog and every file system (in which a path names one file), one pass of
  \<open>_enforce_storage_limit\<close> unlinks the files of the first \<open>k\<close> recordings of that order
  and of no other, for some \<open>k\<close>, each of them absent or deleted; before each of these
  evictions the running total (the total at the start less the bytes of the files
  unlinked so far) exceeded the maximum, and when the pass commits with recordings left
  over, the running total is at or under the maximum: the pass evicts oldest first, only
  while over the limit, and stops at the first point where it is not. A pass that commits
  removes exactly the rows of these \<open>k\<close> recordings. The pass ends with an exception
  only at a recording \<open>k\<close> whose file cannot be deleted, reached while the running total
  still exceeds the maximum, and then removes no row; so it commits when every file is
  absent or can be deleted. When the recordings' files lie below the storage root, the
  running total is the number of bytes below the storage root that are left.
\<close>

theorem capacity_eviction_oldest_first:
  assumes "distinct (map fst fs)"
  shows "\<exists>k ex. k \<le> length db \<and>
           mset (order_by_created_at_asc db) = mset db \<and>
           sorted (map created_at (order_by_created_at_asc db)) \<and>
           total_size_of (rglob dir fs) =
             sum_list (map (\<lambda>e. st_size (snd e)) (filter (\<lambda>e. prefix (dir @ ''/'') (fst e)) fs)) \<and>
           enforce_storage_limit gb dir (fs, db) =
             (ex, unlinked (take k (order_by_created_at_asc db)) fs,
              if ex = Committed
              then filter (\<lambda>r. r \<notin> set (take k (order_by_created_at_asc db))) db else db) \<and>
           list_all (deletable fs) (take k (order_by_created_at_asc db)) \<and>
           (\<forall>j<k. real_of_int (total_size_of (rglob dir fs)
                      - freed_bytes (take j (order_by_created_at_asc db)) fs)
                    > gb * 1024 * 1024 * 1024) \<and>
           (ex = Committed \<and> k < length db \<longrightarrow>
              real_of_int (total_size_of (rglob dir fs)
                - freed_bytes (take k (order_by_created_at_asc db)) fs)
                \<le> gb * 1024 * 1024 * 1024) \<and>
           (ex = Raised \<longrightarrow>
              k < length db \<and>
              real_of_int (total_size_of (rglob dir fs)
                - freed_bytes (take k (order_by_created_at_asc db)) fs)
                > gb * 1024 * 1024 * 1024 \<and>
              \<not> deletable fs (order_by_created_at_asc db ! k)) \<and>
           (list_all (deletable fs) db \<longrightarrow> ex = Committed) \<and>
           (list_all (\<lambda>r. is_under dir (file_path r)) db \<longrightarrow>
              total_size_of (rglob dir fs) - freed_bytes (take k (order_by_created_at_asc db)) fs
                = total_size_of (rglob dir (unlinked (take k (order_by_created_at_asc db)) fs)))"
proof -
  let ?s = "order_by_created_at_asc db"
  from enforce_storage_limit_trace [OF assms, of db gb dir]
  obtain k ex where k: "k \<le> length db"
    "enforce_storage_limit gb dir (fs, db) =
       (ex, unlinked (take k ?s) fs,
        if ex = Committed then filter (\<lambda>r. r \<notin> set (take k ?s)) db else db)"
    "list_all (deletable fs) (take k ?s)"
    "\<forall>j<k. real_of_int (total_size_of (rglob dir fs) - freed_bytes (take j ?s) fs)
        > gb * 1024 * 1024 * 1024"
    "ex = Committed \<and> k < length db \<longrightarrow>
       real_of_int (total_size_of (rglob dir fs) - freed_bytes (take k ?s) fs)
         \<le> gb * 1024 * 1024 * 1024"
    "ex = Raised \<longrightarrow>
       k < length db \<and>
       real_of_int (total_size_of (rglob dir fs) - freed_bytes (take k ?s) fs)
         > gb * 1024 * 1024 * 1024 \<and>
       \<not> deletable fs (?s ! k)"
    by blast
  have m: "mset ?s = mset db"
    by (simp add: order_by_created_at_asc_def)
  have s: "sorted (map created_at ?s)"
    by (simp add: order_by_created_at_asc_def)
  have t: "total_size_of (rglob dir fs) =
             sum_list (map (\<lambda>e. st_size (snd e)) (filter (\<lambda>e. prefix (dir @ ''/'') (fst e)) fs))"
    by (simp add: total_size_of_def rglob_def is_under_def)
  have set_s: "set ?s = set db" and len_s: "length ?s = length db"
    by (simp_all add: order_by_created_at_asc_def)
  have c: "list_all (deletable fs) db \<longrightarrow> ex = Committed"
  proof
    assume all: "list_all (deletable fs) db"
    show "ex = Committed"
    proof (cases ex)
      case Raised
      with k(6) have "k < length ?s" and bad: "\<not> deletable fs (?s ! k)"
        by (simp_all add: len_s)
      then have "?s ! k \<in> set db"
        using set_s nth_mem by blast
      with all bad show ?thesis by (simp add: list_all_iff)
    qed simp
  qed
  have u: "list_all (\<lambda>r. is_under dir (file_path r)) db \<longrightarrow>
             total_size_of (rglob dir fs) - freed_bytes (take k ?s) fs
               = total_size_of (rglob dir (unlinked (take k ?s) fs))"
  proof
    assume "list_all (\<lambda>r. is_under dir (file_path r)) db"
    then have "list_all (\<lambda>r. is_under dir (file_path r)) (take k ?s)"
      using set_s by (auto simp add: list_all_iff dest: in_set_takeD)
    then show "total_size_of (rglob dir fs) - freed_bytes (take k ?s) fs
                 = total_size_of (rglob dir (unlinked (take k ?s) fs))"
      by (rule running_total_on_disk)
  qed
  show ?thesis
    apply (rule exI [of _ k])
    apply (rule exI [of _ ex])
    apply (intro conjI)
    apply (rule k(1))
    apply (rule m)
    apply (rule s)
    apply (rule t)
    apply (rule k(2))
    apply (rule k(3))
    apply (rule k(4))
    apply (rule k(5))
    apply (rule k(6))
    apply (rule c)
    apply (rule u)
    done
qed

theorem capacity_eviction_oldest_first_witness:
  "distinct (map fst abc_fs) \<and>
   list_all (deletable abc_fs) abc_db \<and>
   list_all (\<lambda>r. is_under ''s'' (file_path r)) abc_db \<and>
   enforce_storage_limit (100 / 1024) ''s'' (abc_fs, abc_db) =
     (Committed, [(''s/b'', plain_file (40 * MB)), (''s/c'', plain_file (40 * MB))],
      [recording_at 2 ''s/b'' (40 * MB) (day 1), recording_at 3 ''s/c'' (40 * MB) (day 2)]) \<and>
   total_size_of (rglob ''s'' [(''s/b'', plain_file (40 * MB)), (''s/c'', plain_file (40 * MB))])
     = 80 * MB \<and>
   (\<exists>k ex. k \<le> length abc_db \<and>
      enforce_storage_limit (100 / 1024) ''s'' (abc_fs, abc_db) =
        (ex, unlinked (take k (order_by_created_at_asc abc_db)) abc_fs,
         if ex = Committed
         then filter (\<lambda>r. r \<notin> set (take k (order_by_created_at_asc abc_db))) abc_db
         else abc_db) \<and>
      ex = Committed \<and>
      total_size_of (rglob ''s'' abc_fs) - freed_bytes (take k (order_by_created_at_asc abc_db)) abc_fs
        = total_size_of (rglob ''s'' (unlinked (take k (order_by_created_at_asc abc_db)) abc_fs))) \<and>
   distinct (map fst locked_fs) \<and>
   enforce_storage_limit 0 ''s'' (locked_fs, old_db) =
     (Raised, [(''s/b'', locked_file 100), (''s/c'', plain_file 100)], old_db) \<and>
   (\<exists>k. k < length old_db \<and>
      enforce_storage_limit 0 ''s'' (locked_fs, old_db) =
        (Raised, unlinked (take k (order_by_created_at_asc old_db)) locked_fs, old_db) \<and>
      \<not> deletable locked_fs (order_by_created_at_asc old_db ! k))"
proof -
  have h1: "distinct (map fst abc_fs)"
    by (simp add: abc_fs_def)
  have h2: "list_all (deletable abc_fs) abc_db"
    by (simp add: abc_fs_def abc_db_def deletable_def recording_at_def plain_file_def)
  have h3: "list_all (\<lambda>r. is_under ''s'' (file_path r)) abc_db"
    by (simp add: abc_db_def is_under_def recording_at_def)
  have e1: "enforce_storage_limit (100 / 1024) ''s'' (abc_fs, abc_db) =
     (Committed, [(''s/b'', plain_file (40 * MB)), (''s/c'', plain_file (40 * MB))],
      [recording_at 2 ''s/b'' (40 * MB) (day 1), recording_at 3 ''s/c'' (40 * MB) (day 2)])"
    by (simp add: enforce_storage_limit_def order_by_created_at_asc_def abc_fs_def abc_db_def
        total_size_of_def rglob_def is_under_def recording_at_def plain_file_def MB_def day_def
        unlink_def)
  have e2: "total_size_of (rglob ''s'' [(''s/b'', plain_file (40 * MB)), (''s/c'', plain_file (40 * MB))])
     = 80 * MB"
    by (simp add: total_size_of_def rglob_def is_under_def plain_file_def MB_def)
  from capacity_eviction_oldest_first [OF h1, of abc_db "''s''" "100 / 1024"]
  obtain k ex where a: "k \<le> length abc_db"
    "enforce_storage_limit (100 / 1024) ''s'' (abc_fs, abc_db) =
        (ex, unlinked (take k (order_by_created_at_asc abc_db)) abc_fs,
         if ex = Committed
         then filter (\<lambda>r. r \<notin> set (take k (order_by_created_at_asc abc_db))) abc_db
         else abc_db)"
    "list_all (deletable abc_fs) abc_db \<longrightarrow> ex = Committed"
    "list_all (\<lambda>r. is_under ''s'' (file_path r)) abc_db \<longrightarrow>
       total_size_of (rglob ''s'' abc_fs) - freed_bytes (take k (order_by_created_at_asc abc_db)) abc_fs
        = total_size_of (rglob ''s'' (unlinked (take k (order_by_created_at_asc abc_db)) abc_fs))"
    by blast
  from a h2 h3
  have e3: "\<exists>k ex. k \<le> length abc_db \<and>
      enforce_storage_limit (100 / 1024) ''s'' (abc_fs, abc_db) =
        (ex, unlinked (take k (order_by_created_at_asc abc_db)) abc_fs,
         if ex = Committed
         then filter (\<lambda>r. r \<notin> set (take k (order_by_created_at_asc abc_db))) abc_db
         else abc_db) \<and>
      ex = Committed \<and>
      total_size_of (rglob ''s'' abc_fs) - freed_bytes (take k (order_by_created_at_asc abc_db)) abc_fs
        = total_size_of (rglob ''s'' (unlinked (take k (order_by_created_at_asc abc_db)) abc_fs))"
    by blast
  have h4: "distinct (map fst locked_fs)"
    by (simp add: locked_fs_def)
  have e4: "enforce_storage_limit 0 ''s'' (locked_fs, old_db) =
     (Raised, [(''s/b'', locked_file 100), (''s/c'', plain_file 100)], old_db)"
    by (simp add: enforce_storage_limit_def order_by_created_at_asc_def locked_fs_def old_db_def
        total_size_of_def rglob_def is_under_def recording_at_def plain_file_def locked_file_def
        day_def unlink_def)
  from capacity_eviction_oldest_first [OF h4, of old_db "''s''" 0]
  obtain j ex' where b: 
    "enforce_storage_limit 0 ''s'' (locked_fs, old_db) =
        (ex', unlinked (take j (order_by_created_at_asc old_db)) locked_fs,
         if ex' = Committed
         then filter (\<lambda>r. r \<notin> set (take j (order_by_created_at_asc old_db))) old_db
         else old_db)"
    "ex' = Raised \<longrightarrow>
       j < length old_db \<and>
       real_of_int (total_size_of (rglob ''s'' locked_fs)
         - freed_bytes (take j (order_by_created_at_asc old_db)) locked_fs) > 0 * 1024 * 1024 * 1024 \<and>
       \<not> deletable locked_fs (order_by_created_at_asc old_db ! j)"
    by blast
  from b(1) e4 have r: "ex' = Raised" by simp
  with b have e5: "\<exists>k. k < length old_db \<and>
      enforce_storage_limit 0 ''s'' (locked_fs, old_db) =
        (Raised, unlinked (take k (order_by_created_at_asc old_db)) locked_fs, old_db) \<and>
      \<not> deletable locked_fs (order_by_created_at_asc old_db ! k)"
    by (intro exI [of _ j]) simp
  from h1 h2 h3 e1 e2 e3 h4 e4 e5 show ?thesis
    by (intro conjI)
qed

subsection \<open>Age eviction\<close>

text \<open>
  Claim C3 says that a pass deletes exactly the recordings older than the retention
  period, for every state. It does not when a file cannot be deleted: with a retention of
  7 days and recordings of day 0, day 6 and day 8, the pass at day 8 targets the
  recording of day 0, fails to delete its file, and leaves the catalog and the files as
  they were.
\<close>

theorem age_eviction_counterexample:
  "created_at (week_db ! 0) < day 8 - 7 * 86400000000 \<and>
   cleanup_old_recordings (day 8) 7 (week_locked_fs, week_db) = (Raised, week_locked_fs, week_db)"
  by (simp add: cleanup_old_recordings_def cutoff_date_def week_locked_fs_def week_db_def
      day_def recording_at_def plain_file_def locked_file_def exists_file_def unlink_def)

text \<open>
  Claim C3, as the code has it. The pass targets the rows whose stored creation time is
  earlier than its own clock reading less \<open>retention_days\<close> days (of 86400000000
  microseconds). If the file of every targeted row is absent or can be deleted, the pass
  commits, the rows removed from the catalog are exactly the targeted ones, and the files
  removed are exactly theirs: with a retention of 7 days and recordings of day 0, day 6
  and day 8, the pass at day 8 removes the recording of day 0 and nothing else. If the
  file of a targeted row cannot be deleted, the pass ends with the exception and removes
  no row.
\<close>

theorem age_eviction_exact:
  "(list_all (deletable fs) (filter (\<lambda>r. created_at r < now - days * 86400000000) db) \<longrightarrow>
      cleanup_old_recordings now days (fs, db) =
        (Committed,
         unlinked (filter (\<lambda>r. created_at r < now - days * 86400000000) db) fs,
         filter (\<lambda>r. \<not> created_at r < now - days * 86400000000) db)) \<and>
   (\<not> list_all (deletable fs) (filter (\<lambda>r. created_at r < now - days * 86400000000) db) \<longrightarrow>
      fst (cleanup_old_recordings now days (fs, db)) = Raised \<and>
      snd (snd (cleanup_old_recordings now days (fs, db))) = db)"
proof -
  let ?old = "filter (\<lambda>r. created_at r < now - days * 86400000000) db"
  have old: "filter (\<lambda>r. created_at r < cutoff_date now days) db = ?old"
    by (simp add: cutoff_date_def)
  from cleanup_loop_trace [of ?old fs]
  obtain k where k: "k \<le> length ?old"
    "cleanup_loop ?old fs = (if k = length ?old then Committed else Raised, unlinked (take k ?old) fs)"
    "list_all (deletable fs) (take k ?old)"
    "k < length ?old \<longrightarrow> \<not> deletable fs (?old ! k)"
    by blast
  have rows: "filter (\<lambda>r. r \<notin> set ?old) db = filter (\<lambda>r. \<not> created_at r < now - days * 86400000000) db"
    by (rule filter_cong) auto
  have commits: "cleanup_old_recordings now days (fs, db) =
        (Committed, unlinked ?old fs, filter (\<lambda>r. \<not> created_at r < now - days * 86400000000) db)"
    if all: "list_all (deletable fs) ?old"
  proof -
    have "k = length ?old"
    proof (rule ccontr)
      assume "k \<noteq> length ?old"
      with k(1,4) have "k < length ?old" and "\<not> deletable fs (?old ! k)" by simp_all
      with all show False
        using nth_mem [of k ?old] by (simp add: list_all_iff del: nth_mem)
    qed
    with k(2) have "cleanup_loop ?old fs = (Committed, unlinked ?old fs)"
      by simp
    with rows show ?thesis
      by (simp add: cleanup_old_recordings_def old)
  qed
  have raises: "fst (cleanup_old_recordings now days (fs, db)) = Raised \<and>
                snd (snd (cleanup_old_recordings now days (fs, db))) = db"
    if some: "\<not> list_all (deletable fs) ?old"
  proof -
    from some k(3) have "k \<noteq> length ?old" by auto
    with k(2) have "cleanup_loop ?old fs = (Raised, unlinked (take k ?old) fs)"
      by simp
    then show ?thesis
      by (simp add: cleanup_old_recordings_def old)
  qed
  from commits raises show ?thesis by blast
qed

theorem age_eviction_exact_witness:
  "list_all (deletable week_fs) (filter (\<lambda>r. created_at r < day 8 - 7 * 86400000000) week_db) \<and>
   filter (\<lambda>r. created_at r < day 8 - 7 * 86400000000) week_db
     = [recording_at 1 ''s/a'' 100 (day 0)] \<and>
   cleanup_old_recordings (day 8) 7 (week_fs, week_db) =
     (Committed, [(''s/b'', plain_file 100), (''s/c'', plain_file 100)],
      [recording_at 2 ''s/b'' 100 (day 6), recording_at 3 ''s/c'' 100 (day 8)]) \<and>
   \<not> list_all (deletable locked_fs) (filter (\<lambda>r. created_at r < day 30 - 7 * 86400000000) old_db) \<and>
   fst (cleanup_old_recordings (day 30) 7 (locked_fs, old_db)) = Raised \<and>
   snd (snd (cleanup_old_recordings (day 30) 7 (locked_fs, old_db))) = old_db"
proof -
  have old: "filter (\<lambda>r. created_at r < day 8 - 7 * 86400000000) week_db
               = [recording_at 1 ''s/a'' 100 (day 0)]"
    by (simp add: week_db_def day_def recording_at_def)
  have h: "list_all (deletable week_fs) (filter (\<lambda>r. created_at r < day 8 - 7 * 86400000000) week_db)"
    unfolding old by (simp add: week_fs_def deletable_def recording_at_def plain_file_def)
  have rest: "filter (\<lambda>r. \<not> created_at r < day 8 - 7 * 86400000000) week_db
                = [recording_at 2 ''s/b'' 100 (day 6), recording_at 3 ''s/c'' 100 (day 8)]"
    by (simp add: week_db_def day_def recording_at_def)
  have files: "unlinked [recording_at 1 ''s/a'' 100 (day 0)] week_fs
                 = [(''s/b'', plain_file 100), (''s/c'', plain_file 100)]"
    by (simp add: unlinked_def week_fs_def recording_at_def)
  from age_eviction_exact [of week_fs "day 8" 7 week_db] h
  have "cleanup_old_recordings (day 8) 7 (week_fs, week_db) =
          (Committed,
           unlinked (filter (\<lambda>r. created_at r < day 8 - 7 * 86400000000) week_db) week_fs,
           filter (\<lambda>r. \<not> created_at r < day 8 - 7 * 86400000000) week_db)"
    by blast
  then have e: "cleanup_old_recordings (day 8) 7 (week_fs, week_db) =
     (Committed, [(''s/b'', plain_file 100), (''s/c'', plain_file 100)],
      [recording_at 2 ''s/b'' 100 (day 6), recording_at 3 ''s/c'' 100 (day 8)])"
    by (simp only: old rest files)
  have g: "\<not> list_all (deletable locked_fs)
             (filter (\<lambda>r. created_at r < day 30 - 7 * 86400000000) old_db)"
    by (simp add: old_db_def locked_fs_def day_def recording_at_def deletable_def
        plain_file_def locked_file_def)
  from age_eviction_exact [of locked_fs "day 30" 7 old_db] g
  have r: "fst (cleanup_old_recordings (day 30) 7 (locked_fs, old_db)) = Raised \<and>
           snd (snd (cleanup_old_recordings (day 30) 7 (locked_fs, old_db))) = old_db"
    by blast
  from h old e g r show ?thesis
    by blast
qed

subsection \<open>Failing file deletions\<close>

text \<open>
  Claim C4 says that a file deletion that fails aborts that item only and that the pass
  goes on with the remaining items. It does not. Three recordings are past the retention
  period and the file of the second cannot be deleted: the age pass ends with the
  exception, the file of the first recording is gone, the file of the third is still
  there, and no row has left the catalog, neither the first recording's, whose file was
  deleted, nor the third's, which the pass never reached. The capacity pass with a
  maximum of zero behaves in the same way.
\<close>

theorem unlink_failure_counterexample:
  "cleanup_old_recordings (day 30) 7 (locked_fs, old_db) =
     (Raised, [(''s/b'', locked_file 100), (''s/c'', plain_file 100)], old_db) \<and>
   enforce_storage_limit 0 ''s'' (locked_fs, old_db) =
     (Raised, [(''s/b'', locked_file 100), (''s/c'', plain_file 100)], old_db) \<and>
   length old_db = 3"
  by (simp add: cleanup_old_recordings_def enforce_storage_limit_def order_by_created_at_asc_def
      cutoff_date_def locked_fs_def old_db_def day_def recording_at_def plain_file_def
      locked_file_def exists_file_def unlink_def total_size_of_def rglob_def is_under_def)

text \<open>
  Claim C4, as the code has it. In both passes the targeted recordings are handled in
  order up to some position \<open>k\<close>: each of the first \<open>k\<close> has its file absent (it is then
  not unlinked) or deleted, and no other file is touched. If the age pass gets through
  all targeted recordings it commits and removes the rows of all of them, those with an
  absent file included. If the file of the recording at position \<open>k\<close> cannot be deleted,
  the pass ends there with the exception: no row is removed, also not the rows of the
  recordings before \<open>k\<close>, and the recordings after \<open>k\<close> are not handled. The capacity
  pass does the same on the recordings in ascending creation order: it removes the rows
  of the recordings it handled if it commits, and no row if a file deletion fails.
\<close>

theorem unlink_failure_aborts_pass:
  assumes "distinct (map fst fs)"
  shows "(\<exists>k\<le>length (filter (\<lambda>r. created_at r < cutoff_date now days) db).
            cleanup_old_recordings now days (fs, db) =
              (if k = length (filter (\<lambda>r. created_at r < cutoff_date now days) db)
               then (Committed,
                     unlinked (filter (\<lambda>r. created_at r < cutoff_date now days) db) fs,
                     filter (\<lambda>r. \<not> created_at r < cutoff_date now days) db)
               else (Raised,
                     unlinked (take k (filter (\<lambda>r. created_at r < cutoff_date now days) db)) fs,
                     db)) \<and>
            list_all (deletable fs) (take k (filter (\<lambda>r. created_at r < cutoff_date now days) db)) \<and>
            (k < length (filter (\<lambda>r. created_at r < cutoff_date now days) db) \<longrightarrow>
               \<not> deletable fs (filter (\<lambda>r. created_at r < cutoff_date now days) db ! k))) \<and>
         (\<exists>k ex. k \<le> length db \<and>
            enforce_storage_limit gb dir (fs, db) =
              (ex, unlinked (take k (order_by_created_at_asc db)) fs,
               if ex = Committed
               then filter (\<lambda>r. r \<notin> set (take k (order_by_created_at_asc db))) db else db) \<and>
            list_all (deletable fs) (take k (order_by_created_at_asc db)) \<and>
            (ex = Raised \<longrightarrow> k < length db \<and> \<not> deletable fs (order_by_created_at_asc db ! k)))"
proof
  let ?old = "filter (\<lambda>r. created_at r < cutoff_date now days) db"
  from cleanup_loop_trace [of ?old fs]
  obtain k where k: "k \<le> length ?old"
    "cleanup_loop ?old fs = (if k = length ?old then Committed else Raised, unlinked (take k ?old) fs)"
    "list_all (deletable fs) (take k ?old)"
    "k < length ?old \<longrightarrow> \<not> deletable fs (?old ! k)"
    by blast
  have rows: "filter (\<lambda>r. r \<notin> set ?old) db = filter (\<lambda>r. \<not> created_at r < cutoff_date now days) db"
    by (rule filter_cong) auto
  have "cleanup_old_recordings now days (fs, db) =
          (if k = length ?old
           then (Committed, unlinked ?old fs, filter (\<lambda>r. \<not> created_at r < cutoff_date now days) db)
           else (Raised, unlinked (take k ?old) fs, db))"
    using k(2) rows by (simp add: cleanup_old_recordings_def)
  with k(1,3,4)
  show "\<exists>k\<le>length ?old.
            cleanup_old_recordings now days (fs, db) =
              (if k = length ?old
               then (Committed, unlinked ?old fs,
                     filter (\<lambda>r. \<not> created_at r < cutoff_date now days) db)
               else (Raised, unlinked (take k ?old) fs, db)) \<and>
            list_all (deletable fs) (take k ?old) \<and>
            (k < length ?old \<longrightarrow> \<not> deletable fs (?old ! k))"
    by blast
next
  from enforce_storage_limit_trace [OF assms, of db gb dir]
  show "\<exists>k ex. k \<le> length db \<and>
            enforce_storage_limit gb dir (fs, db) =
              (ex, unlinked (take k (order_by_created_at_asc db)) fs,
               if ex = Committed
               then filter (\<lambda>r. r \<notin> set (take k (order_by_created_at_asc db))) db else db) \<and>
            list_all (deletable fs) (take k (order_by_created_at_asc db)) \<and>
            (ex = Raised \<longrightarrow> k < length db \<and> \<not> deletable fs (order_by_created_at_asc db ! k))"
    by blast
qed

theorem unlink_failure_aborts_pass_witness:
  "distinct (map fst gone_fs) \<and>
   filter (\<lambda>r. created_at r < cutoff_date (day 30) 7) old_db = old_db \<and>
   map_of gone_fs (file_path (old_db ! 0)) = None \<and>
   cleanup_old_recordings (day 30) 7 (gone_fs, old_db) = (Committed, [], []) \<and>
   (\<exists>k\<le>length (filter (\<lambda>r. created_at r < cutoff_date (day 30) 7) old_db).
      cleanup_old_recordings (day 30) 7 (gone_fs, old_db) =
        (if k = length (filter (\<lambda>r. created_at r < cutoff_date (day 30) 7) old_db)
         then (Committed,
               unlinked (filter (\<lambda>r. created_at r < cutoff_date (day 30) 7) old_db) gone_fs,
               filter (\<lambda>r. \<not> created_at r < cutoff_date (day 30) 7) old_db)
         else (Raised,
               unlinked (take k (filter (\<lambda>r. created_at r < cutoff_date (day 30) 7) old_db)) gone_fs,
               old_db)) \<and>
      k = 3)"
proof -
  have h: "distinct (map fst gone_fs)"
    by (simp add: gone_fs_def)
  have old: "filter (\<lambda>r. created_at r < cutoff_date (day 30) 7) old_db = old_db"
    by (simp add: old_db_def cutoff_date_def day_def recording_at_def)
  have gone: "map_of gone_fs (file_path (old_db ! 0)) = None"
    by (simp add: gone_fs_def old_db_def recording_at_def)
  have e: "cleanup_old_recordings (day 30) 7 (gone_fs, old_db) = (Committed, [], [])"
    by (simp add: cleanup_old_recordings_def cutoff_date_def gone_fs_def old_db_def day_def
        recording_at_def plain_file_def exists_file_def unlink_def)
  from unlink_failure_aborts_pass [OF h, of "day 30" 7 old_db 0 "''s''"]
  obtain k where k: "k \<le> length (filter (\<lambda>r. created_at r < cutoff_date (day 30) 7) old_db)"
    "cleanup_old_recordings (day 30) 7 (gone_fs, old_db) =
        (if k = length (filter (\<lambda>r. created_at r < cutoff_date (day 30) 7) old_db)
         then (Committed,
               unlinked (filter (\<lambda>r. created_at r < cutoff_date (day 30) 7) old_db) gone_fs,
               filter (\<lambda>r. \<not> created_at r < cutoff_date (day 30) 7) old_db)
         else (Raised,
               unlinked (take k (filter (\<lambda>r. created_at r < cutoff_date (day 30) 7) old_db)) gone_fs,
               old_db))"
    by blast
  have "k = 3"
  proof (rule ccontr)
    assume "k \<noteq> 3"
    then have "k \<noteq> length (filter (\<lambda>r. created_at r < cutoff_date (day 30) 7) old_db)"
      by (simp add: old) (simp add: old_db_def)
    with k(2) e show False by simp
  qed
  with k h old gone e show ?thesis
    by blast
qed

section \<open>Properties of closing a segment\<close>

text \<open>
  Claim C7 says that a row with \<open>end_time\<close> not after \<open>start_time\<close> is rejected. Nothing
  compares the two readings of the local clock: when the clock is set back between them
  (here from 02:00 to 01:30, as at the end of daylight saving time), the row is stored
  with its end before its start and a negative duration.
\<close>

theorem end_after_start_counterexample:
  "map (\<lambda>r. (start_time r, end_time r, duration r))
     (fst (recording_iteration (Some watching_manager) ''s'' 1 False ''1'' ''2024-11-03''
             ''01-30-00'' 7200000000 5400000000 segment_fs 1 5400000000 []))
     = [(7200000000, 5400000000, - 1800)]"
  by (simp add: recording_iteration_def Let_def get_camera_info_def watching_manager_def
      door_manager_def live_camera_def)

text \<open>
  Claim C7, as the code has it: an iteration of the recording thread that finds its
  camera running stores exactly one new row after \<open>_record_video\<close> returns; the row
  carries the two clock readings as start and end, whatever their order, their difference
  in seconds as duration, and as \<open>file_size\<close> the size of the segment file on disk at
  that moment if the file exists, and 0 if it does not.
\<close>

theorem segment_close_registers_row:
  assumes "get_camera_info cid m = Some True"
  shows "\<exists>r. fst (recording_iteration (Some m) storage_path cid ev cam_str date_str timestamp
                     start stop fs new_id utcnow db) = db @ [r] \<and>
           camera_id r = cid \<and> event_based r = ev \<and>
           start_time r = start \<and> end_time r = stop \<and>
           duration r = real_of_int (stop - start) / 1000000 \<and>
           file_path r = storage_path @ ''/'' @ cam_str @ ''/'' @ date_str @ ''/''
                           @ cam_str @ ''_'' @ timestamp @ ''.mp4'' \<and>
           file_size r = (case map_of fs (file_path r) of Some f \<Rightarrow> st_size f | None \<Rightarrow> 0)"
  using assms by (simp add: recording_iteration_def Let_def)

theorem segment_close_registers_row_witness:
  "get_camera_info 1 watching_manager = Some True \<and>
   (\<exists>r. fst (recording_iteration (Some watching_manager) ''s'' 1 False ''1'' ''2024-11-03''
                ''01-30-00'' 0 3600000000 segment_fs 1 3600000000 []) = [] @ [r] \<and>
      start_time r = 0 \<and> end_time r = 3600000000 \<and>
      file_path r = ''s/1/2024-11-03/1_01-30-00.mp4'' \<and>
      file_size r = 5 * MB)"
proof -
  have h: "get_camera_info 1 watching_manager = Some True"
    by (simp add: get_camera_info_def watching_manager_def live_camera_def)
  from segment_close_registers_row [OF h, of "''s''" False "''1''" "''2024-11-03''"
      "''01-30-00''" 0 3600000000 segment_fs 1 3600000000 "[]"]
  obtain r where r: "fst (recording_iteration (Some watching_manager) ''s'' 1 False ''1''
       ''2024-11-03'' ''01-30-00'' 0 3600000000 segment_fs 1 3600000000 []) = [] @ [r]"
    "start_time r = 0" "end_time r = 3600000000"
    "file_path r = ''s'' @ ''/'' @ ''1'' @ ''/'' @ ''2024-11-03'' @ ''/''
                           @ ''1'' @ ''_'' @ ''01-30-00'' @ ''.mp4''"
    "file_size r = (case map_of segment_fs (file_path r) of Some f \<Rightarrow> st_size f | None \<Rightarrow> 0)"
    by blast
  from r(4) have p: "file_path r = ''s/1/2024-11-03/1_01-30-00.mp4''"
    by simp
  from r(5) have "file_size r = 5 * MB"
    by (simp add: p segment_fs_def plain_file_def)
  with h r(1,2,3) p show ?thesis
    by blast
qed

section \<open>Properties of get\_recordings\<close>

lemma order_by_created_at_desc_sorted:
  "sorted_wrt (\<lambda>a b. created_at a \<ge> created_at b) (order_by_created_at_desc rs)"
proof -
  have "sorted (map (\<lambda>r. - created_at r) (order_by_created_at_desc rs))"
    by (simp add: order_by_created_at_desc_def)
  then show ?thesis
    by (simp add: sorted_map)
qed

text \<open>
  Claim C9 says that every call returns at most \<open>limit\<close> entries. With a negative limit
  on SQLite it returns every row: the call with limit \<open>-1\<close> on a catalog of three
  recordings returns three dictionaries.
\<close>

theorem negative_limit_counterexample:
  "get_recordings Sqlite None (- 1) two_camera_db =
     Inr (map recording_dict [two_camera_db ! 2, two_camera_db ! 1, two_camera_db ! 0]) \<and>
   \<not> int (length (map recording_dict [two_camera_db ! 2, two_camera_db ! 1, two_camera_db ! 0]))
       \<le> - 1"
  by (simp add: get_recordings_def get_recordings_rows_def sql_limit_def truthy_def
      order_by_created_at_desc_def two_camera_db_def recording_at_def day_def)

text \<open>
  Claim C9, as the code has it. Let the rows of the query be the rows of the given
  camera when \<open>camera_id\<close> is a number other than 0, and the rows of all cameras when
  it is \<open>None\<close> or \<open>0\<close>, in descending order of creation time. For a limit that is not
  negative, \<open>get_recordings(camera_id, limit)\<close> returns one dictionary for each of the
  first \<open>limit\<close> of these rows, so at most \<open>limit\<close> entries. For a negative limit it
  returns a dictionary for every one of these rows on SQLite and raises on PostgreSQL.
  In all cases the call with \<open>0\<close> gives what the call with \<open>None\<close> gives.
\<close>

theorem get_recordings_limit_order_filter:
  "\<exists>rows.
     mset rows =
       mset (if cam = None \<or> cam = Some 0 then db
             else filter (\<lambda>r. Some (camera_id r) = cam) db) \<and>
     sorted_wrt (\<lambda>a b. created_at a \<ge> created_at b) rows \<and>
     (0 \<le> limit \<longrightarrow>
        get_recordings d cam limit db =
          Inr (map (\<lambda>r. [(''id'', PyInt (rec_id r)),
                         (''camera_id'', PyInt (camera_id r)),
                         (''start_time'', PyIsoformat (start_time r)),
                         (''end_time'', PyIsoformat (end_time r)),
                         (''file_path'', PyStr (file_path r)),
                         (''file_size'', PyInt (file_size r)),
                         (''duration'', PyFloat (duration r)),
                         (''event_based'', PyBool (event_based r))])
                 (take (nat limit) rows)) \<and>
        int (length (take (nat limit) rows)) \<le> limit) \<and>
     (limit < 0 \<longrightarrow>
        get_recordings Sqlite cam limit db = Inr (map recording_dict rows) \<and>
        get_recordings Postgresql cam limit db = Inl DataError) \<and>
     get_recordings d (Some 0) limit db = get_recordings d None limit db"
proof -
  let ?q = "if cam = None \<or> cam = Some 0 then db else filter (\<lambda>r. Some (camera_id r) = cam) db"
  let ?rows = "order_by_created_at_desc ?q"
  have q: "(if truthy cam then filter (\<lambda>r. Some (camera_id r) = cam) db else db) = ?q"
    by (cases cam) (auto simp add: truthy_def)
  have m: "mset ?rows = mset ?q"
    by (simp add: order_by_created_at_desc_def)
  have s: "sorted_wrt (\<lambda>a b. created_at a \<ge> created_at b) ?rows"
    by (rule order_by_created_at_desc_sorted)
  have dict: "recording_dict = (\<lambda>r. [(''id'', PyInt (rec_id r)),
                         (''camera_id'', PyInt (camera_id r)),
                         (''start_time'', PyIsoformat (start_time r)),
                         (''end_time'', PyIsoformat (end_time r)),
                         (''file_path'', PyStr (file_path r)),
                         (''file_size'', PyInt (file_size r)),
                         (''duration'', PyFloat (duration r)),
                         (''event_based'', PyBool (event_based r))])"
    by (intro ext) (simp add: recording_dict_def)
  have rows: "get_recordings_rows e cam limit db = sql_limit e limit ?rows" for e
    by (simp add: get_recordings_rows_def q)
  have len: "int (length (take (nat limit) xs)) \<le> limit" if "0 \<le> limit"
    for xs :: "Recording list"
  proof -
    have "length (take (nat limit) xs) \<le> nat limit" by simp
    with that show ?thesis by linarith
  qed
  have a: "0 \<le> limit \<longrightarrow>
        get_recordings d cam limit db = Inr (map recording_dict (take (nat limit) ?rows)) \<and>
        int (length (take (nat limit) ?rows)) \<le> limit"
    using len [of ?rows] by (simp add: get_recordings_def rows sql_limit_def del: length_take)
  have b: "limit < 0 \<longrightarrow>
        get_recordings Sqlite cam limit db = Inr (map recording_dict ?rows) \<and>
        get_recordings Postgresql cam limit db = Inl DataError"
    by (simp add: get_recordings_def rows sql_limit_def)
  have z: "get_recordings d (Some 0) limit db = get_recordings d None limit db"
    by (simp add: get_recordings_def get_recordings_rows_def truthy_def)
  show ?thesis
    apply (rule exI [of _ ?rows])
    apply (intro conjI)
    apply (rule m)
    apply (rule s)
    apply (rule a [unfolded dict])
    apply (rule b)
    apply (rule z)
    done
qed

theorem get_recordings_limit_order_filter_witness:
  "get_recordings Sqlite (Some 0) 2 two_camera_db =
     Inr (map recording_dict [two_camera_db ! 2, two_camera_db ! 1]) \<and>
   get_recordings Sqlite (Some 2) 100 two_camera_db = Inr (map recording_dict [two_camera_db ! 1]) \<and>
   (\<exists>rows. mset rows = mset two_camera_db \<and>
      get_recordings Sqlite (Some 0) 2 two_camera_db = Inr (map recording_dict (take 2 rows)) \<and>
      get_recordings Sqlite (Some 0) 2 two_camera_db = get_recordings Sqlite None 2 two_camera_db) \<and>
   (\<exists>rows. mset rows = mset two_camera_db \<and>
      get_recordings Sqlite None (- 1) two_camera_db = Inr (map recording_dict rows) \<and>
      get_recordings Postgresql None (- 1) two_camera_db = Inl DataError)"
proof -
  have e1: "get_recordings Sqlite (Some 0) 2 two_camera_db =
     Inr (map recording_dict [two_camera_db ! 2, two_camera_db ! 1])"
    by (simp add: get_recordings_def get_recordings_rows_def sql_limit_def truthy_def
        order_by_created_at_desc_def two_camera_db_def recording_at_def day_def)
  have e2: "get_recordings Sqlite (Some 2) 100 two_camera_db =
     Inr (map recording_dict [two_camera_db ! 1])"
    by (simp add: get_recordings_def get_recordings_rows_def sql_limit_def truthy_def
        order_by_created_at_desc_def two_camera_db_def recording_at_def day_def)
  have dict: "(\<lambda>r. [(''id'', PyInt (rec_id r)),
                         (''camera_id'', PyInt (camera_id r)),
                         (''start_time'', PyIsoformat (start_time r)),
                         (''end_time'', PyIsoformat (end_time r)),
                         (''file_path'', PyStr (file_path r)),
                         (''file_size'', PyInt (file_size r)),
                         (''duration'', PyFloat (duration r)),
                         (''event_based'', PyBool (event_based r))]) = recording_dict"
    by (intro ext) (simp add: recording_dict_def)
  from get_recordings_limit_order_filter [of "Some 0" two_camera_db 2 Sqlite]
  have e3: "\<exists>rows. mset rows = mset two_camera_db \<and>
      get_recordings Sqlite (Some 0) 2 two_camera_db = Inr (map recording_dict (take 2 rows)) \<and>
      get_recordings Sqlite (Some 0) 2 two_camera_db = get_recordings Sqlite None 2 two_camera_db"
    by (auto simp add: dict)
  from get_recordings_limit_order_filter [of None two_camera_db "- 1" Sqlite]
  have e4: "\<exists>rows. mset rows = mset two_camera_db \<and>
      get_recordings Sqlite None (- 1) two_camera_db = Inr (map recording_dict rows) \<and>
      get_recordings Postgresql None (- 1) two_camera_db = Inl DataError"
    by auto
  from e1 e2 e3 e4 show ?thesis
    by (intro conjI)
qed

end
